(* ===== verification/Prelude.thy ===== *)
theory Prelude
  imports Main
begin

text \<open>
  Shared vocabulary of the development.
  \<^item> \<open>sbind\<close>: sequencing of computations that may throw, the error being the left
    injection of a sum type; a JavaScript exception propagates as \<open>Inl\<close>.
  \<^item> \<open>smap\<close>: \<open>Array.prototype.map\<close> with a callback that may throw: the callback
    runs on the elements in order and the first exception aborts the whole map.
  \<^item> \<open>last_some f xs\<close>: the value \<open>f\<close> gives at the last element of \<open>xs\<close> where
    it gives one, for "the last response of a run that was rendered".
  \<^item> \<open>dec_nat\<close>, \<open>dec_int\<close> and their parsers: the decimal notation that JavaScript
    uses for an integral number (\<open>String(n)\<close>), with the round trip between them.
  The collection \<open>eval_simps\<close> gathers the definitions to unfold when a statement
  evaluates the model on a concrete payload; witnesses call \<open>simp add: eval_simps\<close>.
\<close>

named_theorems eval_simps "definitions unfolded to evaluate the model on concrete inputs"

type_synonym html = string

section \<open>Definitions\<close>

definition sbind :: "'e + 'a \<Rightarrow> ('a \<Rightarrow> 'e + 'b) \<Rightarrow> 'e + 'b" where
  "sbind m f = (case m of Inl e \<Rightarrow> Inl e | Inr a \<Rightarrow> f a)"

fun smap :: "('a \<Rightarrow> 'e + 'b) \<Rightarrow> 'a list \<Rightarrow> 'e + 'b list" where
  "smap f [] = Inr []"
| "smap f (x # xs) = sbind (f x) (\<lambda>y. sbind (smap f xs) (\<lambda>ys. Inr (y # ys)))"

text \<open>\<open>Array.prototype.join(sep)\<close> on a list of strings.\<close>

fun join_with :: "string \<Rightarrow> string list \<Rightarrow> string" where
  "join_with sep [] = []"
| "join_with sep [s] = s"
| "join_with sep (s # t # ss) = s @ sep @ join_with sep (t # ss)"

fun last_some :: "('a \<Rightarrow> 'b option) \<Rightarrow> 'a list \<Rightarrow> 'b option" where
  "last_some f [] = None"
| "last_some f (x # xs) = (case last_some f xs of None \<Rightarrow> f x | Some y \<Rightarrow> Some y)"

definition digit_char :: "nat \<Rightarrow> char" where
  "digit_char d = char_of (48 + d)"

definition char_digit :: "char \<Rightarrow> nat option" where
  "char_digit c =
     (if 48 \<le> (of_char c :: nat) \<and> (of_char c :: nat) \<le> 57 then Some (of_char c - 48) else None)"

fun dec_nat :: "nat \<Rightarrow> string" where
  "dec_nat n = (if n < 10 then [digit_char n] else dec_nat (n div 10) @ [digit_char (n mod 10)])"

declare dec_nat.simps [simp del]

definition dec_int :: "int \<Rightarrow> string" where
  "dec_int i = (if i < 0 then CHR ''-'' # dec_nat (nat (- i)) else dec_nat (nat i))"

definition digits_val :: "string \<Rightarrow> nat option" where
  "digits_val s =
     foldl (\<lambda>acc c. case (acc, char_digit c) of (Some a, Some d) \<Rightarrow> Some (10 * a + d) | _ \<Rightarrow> None)
       (Some 0) s"

definition parse_dec_nat :: "string \<Rightarrow> nat option" where
  "parse_dec_nat s = (if s = [] then None else digits_val s)"

definition parse_dec_int :: "string \<Rightarrow> int option" where
  "parse_dec_int s =
     (case s of
        c # ds \<Rightarrow> (if c = CHR ''-'' then map_option (\<lambda>n. - int n) (parse_dec_nat ds)
                   else map_option int (parse_dec_nat s))
      | [] \<Rightarrow> None)"

section \<open>Lemmas\<close>

lemma takeWhile_dropWhile_stop:
  "list_all P xs \<Longrightarrow> \<not> P c \<Longrightarrow> takeWhile P (xs @ c # r) = xs \<and> dropWhile P (xs @ c # r) = c # r"
  by (induction xs) auto

lemma last_some_None_iff: "last_some f xs = None \<longleftrightarrow> (\<forall>x \<in> set xs. f x = None)"
  by (induction xs) (auto split: option.splits)

lemma last_some_append:
  "last_some f (xs @ ys) = (case last_some f ys of None \<Rightarrow> last_some f xs | Some y \<Rightarrow> Some y)"
  by (induction xs) (auto split: option.splits)

lemma length_dropWhile_eq: "length (dropWhile P xs) = length xs - length (takeWhile P xs)"
proof -
  have "length (takeWhile P xs) + length (dropWhile P xs) = length xs"
    using takeWhile_dropWhile_id [of P xs] by (metis length_append)
  then show ?thesis by arith
qed

lemma length_dropWhile_less:
  "xs \<noteq> [] \<Longrightarrow> P (hd xs) \<Longrightarrow> length (dropWhile P xs) < length xs"
  by (cases xs) (auto simp: le_imp_less_Suc length_dropWhile_le)

lemma length_dropWhile_dropWhile_less:
  "dropWhile P xs \<noteq> [] \<Longrightarrow> length (dropWhile (\<lambda>x. \<not> P x) (dropWhile P xs)) < length xs"
  using length_dropWhile_less [of "dropWhile P xs" "\<lambda>x. \<not> P x"] hd_dropWhile [of P xs]
    length_dropWhile_le [of P xs]
  by simp

lemma sbind_Inl [simp]: "sbind (Inl e) f = Inl e"
  by (simp add: sbind_def)

lemma sbind_Inr [simp]: "sbind (Inr a) f = f a"
  by (simp add: sbind_def)

lemma sbind_eq_Inr_iff: "sbind m f = Inr b \<longleftrightarrow> (\<exists>a. m = Inr a \<and> f a = Inr b)"
  by (cases m) auto

lemma sbind_eq_Inl_iff:
  "sbind m f = Inl e \<longleftrightarrow> m = Inl e \<or> (\<exists>a. m = Inr a \<and> f a = Inl e)"
  by (cases m) auto

lemma smap_map:
  assumes "\<And>x. x \<in> set xs \<Longrightarrow> f x = Inr (g x)"
  shows "smap f xs = Inr (map g xs)"
  using assms by (induction xs) auto

lemma smap_Inr_length: "smap f xs = Inr ys \<Longrightarrow> length ys = length xs"
  by (induction xs arbitrary: ys) (auto simp: sbind_eq_Inr_iff)

lemma smap_Inr_nth:
  "smap f xs = Inr ys \<Longrightarrow> i < length xs \<Longrightarrow> f (xs ! i) = Inr (ys ! i)"
proof (induction xs arbitrary: ys i)
  case Nil
  then show ?case by simp
next
  case (Cons x xs)
  then obtain y ys' where "f x = Inr y" "smap f xs = Inr ys'" "ys = y # ys'"
    by (auto simp: sbind_eq_Inr_iff)
  with Cons show ?case by (cases i) auto
qed

lemma smap_Inr_ex_iff: "(\<exists>ys. smap f xs = Inr ys) \<longleftrightarrow> (\<forall>x \<in> set xs. \<exists>y. f x = Inr y)"
proof (induction xs)
  case Nil
  then show ?case by simp
next
  case (Cons x xs)
  then show ?case by (cases "f x"; cases "smap f xs") auto
qed

lemma smap_eq_Inr_iff:
  "smap f xs = Inr ys \<longleftrightarrow> list_all2 (\<lambda>x y. f x = Inr y) xs ys"
proof (induction xs arbitrary: ys)
  case Nil
  then show ?case by auto
next
  case (Cons x xs)
  then show ?case
    by (cases ys) (auto simp: sbind_eq_Inr_iff)
qed

text \<open>The map fails exactly when the callback fails on some element; the error is
  the one of the first element on which it fails.\<close>

lemma smap_eq_Inl_iff:
  "smap f xs = Inl e \<longleftrightarrow>
     (\<exists>i < length xs. f (xs ! i) = Inl e \<and> (\<forall>j < i. \<exists>y. f (xs ! j) = Inr y))"
proof (induction xs)
  case Nil
  then show ?case by simp
next
  case (Cons x xs)
  show ?case
  proof (cases "f x")
    case (Inl e')
    have "(\<exists>i < length (x # xs). f ((x # xs) ! i) = Inl e
             \<and> (\<forall>j < i. \<exists>y. f ((x # xs) ! j) = Inr y)) \<longleftrightarrow> e' = e"
    proof
      assume "\<exists>i < length (x # xs). f ((x # xs) ! i) = Inl e
                \<and> (\<forall>j < i. \<exists>y. f ((x # xs) ! j) = Inr y)"
      then obtain i where i: "f ((x # xs) ! i) = Inl e" "\<forall>j < i. \<exists>y. f ((x # xs) ! j) = Inr y"
        by blast
      show "e' = e"
      proof (cases i)
        case 0
        with i Inl show ?thesis by simp
      next
        case (Suc k)
        with i(2) Inl show ?thesis by auto
      qed
    next
      assume "e' = e"
      with Inl show "\<exists>i < length (x # xs). f ((x # xs) ! i) = Inl e
                       \<and> (\<forall>j < i. \<exists>y. f ((x # xs) ! j) = Inr y)"
        by (intro exI [of _ 0]) simp
    qed
    with Inl show ?thesis by simp
  next
    case (Inr y)
    have "smap f (x # xs) = Inl e \<longleftrightarrow> smap f xs = Inl e"
      using Inr by (cases "smap f xs") auto
    also have "\<dots> \<longleftrightarrow> (\<exists>i < length (x # xs). f ((x # xs) ! i) = Inl e
                         \<and> (\<forall>j < i. \<exists>y. f ((x # xs) ! j) = Inr y))"
      unfolding Cons.IH
    proof
      assume "\<exists>i<length xs. f (xs ! i) = Inl e \<and> (\<forall>j<i. \<exists>y. f (xs ! j) = Inr y)"
      then obtain i where "i < length xs" "f (xs ! i) = Inl e" "\<forall>j<i. \<exists>y. f (xs ! j) = Inr y"
        by blast
      with Inr show "\<exists>i<length (x # xs). f ((x # xs) ! i) = Inl e
                       \<and> (\<forall>j<i. \<exists>y. f ((x # xs) ! j) = Inr y)"
        by (intro exI [of _ "Suc i"]) (auto simp: less_Suc_eq_0_disj)
    next
      assume "\<exists>i<length (x # xs). f ((x # xs) ! i) = Inl e
                \<and> (\<forall>j<i. \<exists>y. f ((x # xs) ! j) = Inr y)"
      then obtain i where i: "i < length (x # xs)" "f ((x # xs) ! i) = Inl e"
          "\<forall>j<i. \<exists>y. f ((x # xs) ! j) = Inr y"
        by blast
      with Inr obtain i' where "i = Suc i'" by (cases i) auto
      with i show "\<exists>i<length xs. f (xs ! i) = Inl e \<and> (\<forall>j<i. \<exists>y. f (xs ! j) = Inr y)"
        by (intro exI [of _ i']) auto
    qed
    finally show ?thesis .
  qed
qed

lemma digit_char_simps [simp]:
  "digit_char 0 = CHR ''0''" "digit_char 1 = CHR ''1''" "digit_char 2 = CHR ''2''"
  "digit_char 3 = CHR ''3''" "digit_char 4 = CHR ''4''" "digit_char 5 = CHR ''5''"
  "digit_char 6 = CHR ''6''" "digit_char 7 = CHR ''7''" "digit_char 8 = CHR ''8''"
  "digit_char 9 = CHR ''9''" "digit_char (Suc 0) = CHR ''1''"
  by code_simp+

lemma char_digit_digit_char [simp]: "d < 10 \<Longrightarrow> char_digit (digit_char d) = Some d"
  by (simp add: char_digit_def digit_char_def)

lemma digits_val_snoc:
  "digits_val (s @ [c]) =
     (case (digits_val s, char_digit c) of (Some a, Some d) \<Rightarrow> Some (10 * a + d) | _ \<Rightarrow> None)"
  by (simp add: digits_val_def)

lemma dec_nat_nonempty [simp]: "dec_nat n \<noteq> []"
  by (subst dec_nat.simps) simp

lemma digits_val_dec_nat [simp]: "digits_val (dec_nat n) = Some n"
proof (induction n rule: dec_nat.induct)
  case (1 n)
  show ?case
  proof (cases "n < 10")
    case True
    then show ?thesis by (subst dec_nat.simps) (simp add: digits_val_def)
  next
    case False
    with "1.IH" have "digits_val (dec_nat (n div 10)) = Some (n div 10)" by simp
    with False show ?thesis
      by (subst dec_nat.simps) (simp add: digits_val_snoc)
  qed
qed

lemma set_dec_nat: "set (dec_nat n) \<subseteq> digit_char ` {..<10}"
proof (induction n rule: dec_nat.induct)
  case (1 n)
  then show ?case by (subst dec_nat.simps) auto
qed

lemma of_char_digit_char: "d < 10 \<Longrightarrow> (of_char (digit_char d) :: nat) = 48 + d"
  by (simp add: digit_char_def)

lemma dec_nat_char_range:
  "c \<in> set (dec_nat n) \<Longrightarrow> 48 \<le> (of_char c :: nat) \<and> (of_char c :: nat) \<le> 57"
  using set_dec_nat [of n] by (auto simp: of_char_digit_char)

lemma dec_nat_hd_not_minus: "hd (dec_nat n) \<noteq> CHR ''-''"
proof
  assume "hd (dec_nat n) = CHR ''-''"
  moreover have "hd (dec_nat n) \<in> set (dec_nat n)" by simp
  ultimately have "CHR ''-'' \<in> set (dec_nat n)" by simp
  from dec_nat_char_range [OF this] show False by simp
qed

lemma parse_dec_nat_dec_nat [simp]: "parse_dec_nat (dec_nat n) = Some n"
  by (simp add: parse_dec_nat_def)

text \<open>Round trip: the decimal notation of an integer parses back to it.\<close>

lemma parse_dec_int_dec_int [simp]: "parse_dec_int (dec_int i) = Some i"
proof (cases "i < 0")
  case True
  then show ?thesis by (simp add: dec_int_def parse_dec_int_def)
next
  case False
  obtain c ds where cd: "dec_nat (nat i) = c # ds"
    by (cases "dec_nat (nat i)") auto
  have "c \<noteq> CHR ''-''"
    using dec_nat_hd_not_minus [of "nat i"] cd by simp
  moreover have "digits_val (c # ds) = Some (nat i)"
    using digits_val_dec_nat [of "nat i"] cd by simp
  ultimately show ?thesis using False cd
    by (simp add: dec_int_def parse_dec_int_def parse_dec_nat_def)
qed

lemma dec_int_inj: "dec_int i = dec_int j \<Longrightarrow> i = j"
  by (metis option.inject parse_dec_int_dec_int)

lemma dec_int_char_cases:
  "c \<in> set (dec_int i) \<Longrightarrow> c = CHR ''-'' \<or> (48 \<le> (of_char c :: nat) \<and> (of_char c :: nat) \<le> 57)"
  by (auto simp: dec_int_def split: if_splits dest: dec_nat_char_range)

lemma dec_int_no_quote [simp]: "CHR 0x22 \<notin> set (dec_int i)"
  using dec_int_char_cases [of "CHR 0x22" i] by auto

end
