(* ===== verification/JsValue.thy ===== *)
theory JsValue
  imports Prelude
begin

text \<open>
  The JavaScript semantics that \<open>src/tvmaze.js\<close> relies on, restricted to what it uses.
  \<^item> \<open>jsval\<close>: the values a JSON response body decodes to (axios parses the body with
    \<open>JSON.parse\<close>), plus \<open>undefined\<close>. Numbers are integral: every number the TVMaze
    API sends for the fields read here (ids, seasons, episode numbers) is an integer.
  \<^item> \<open>get_prop\<close>: the property read \<open>v.k\<close>; it throws a \<open>TypeError\<close> on \<open>null\<close> and
    \<open>undefined\<close> and yields \<open>undefined\<close> for a missing key. Objects are association
    lists; as with \<open>JSON.parse\<close>, the last binding of a duplicated key wins.
  \<^item> \<open>truthy\<close>: the test of the conditional operator \<open>c ? a : b\<close>.
  \<^item> \<open>js_to_string\<close>: the conversion a template literal \<open>`${v}`\<close> applies.
  \<^item> \<open>js_array_map\<close>: \<open>v.map(f)\<close>, a \<open>TypeError\<close> when \<open>v\<close> is not an array.
  \<^item> \<open>jq_data_conv\<close>: jQuery's conversion of a \<open>data-*\<close> attribute string read by
    \<open>.data(key)\<close> (\<open>"true"\<close>, \<open>"false"\<close>, \<open>"null"\<close>, canonical numbers, JSON text,
    else the string itself). \<open>JSON.parse\<close> is a parameter of type \<open>json_parser\<close>
    (\<open>None\<close>: it throws, and jQuery then keeps the string).
\<close>

datatype jsval =
    JUndefined
  | JNull
  | JBool bool
  | JNum int
  | JStr string
  | JArr "jsval list"
  | JObj "(string \<times> jsval) list"

datatype js_error =
    TypeError
  | AxiosError "int option" \<comment> \<open>rejected request: \<open>None\<close> network failure, \<open>Some c\<close> HTTP status \<open>c\<close>\<close>

type_synonym json_parser = "string \<Rightarrow> jsval option"

fun truthy :: "jsval \<Rightarrow> bool" where
  "truthy JUndefined = False"
| "truthy JNull = False"
| "truthy (JBool b) = b"
| "truthy (JNum n) = (n \<noteq> 0)"
| "truthy (JStr s) = (s \<noteq> [])"
| "truthy (JArr vs) = True"
| "truthy (JObj kvs) = True"

fun get_prop :: "jsval \<Rightarrow> string \<Rightarrow> js_error + jsval" where
  "get_prop JUndefined k = Inl TypeError"
| "get_prop JNull k = Inl TypeError"
| "get_prop (JObj kvs) k = Inr (case map_of (rev kvs) k of Some v \<Rightarrow> v | None \<Rightarrow> JUndefined)"
| "get_prop v k = Inr JUndefined"

fun js_to_string :: "jsval \<Rightarrow> string" where
  "js_to_string JUndefined = ''undefined''"
| "js_to_string JNull = ''null''"
| "js_to_string (JBool b) = (if b then ''true'' else ''false'')"
| "js_to_string (JNum n) = dec_int n"
| "js_to_string (JStr s) = s"
| "js_to_string (JArr vs) =
     join_with '','' (map (\<lambda>v. if v = JNull \<or> v = JUndefined then [] else js_to_string v) vs)"
| "js_to_string (JObj kvs) = ''[object Object]''"

definition js_array_map :: "(jsval \<Rightarrow> js_error + 'a) \<Rightarrow> jsval \<Rightarrow> js_error + 'a list" where
  "js_array_map f v = (case v of JArr vs \<Rightarrow> smap f vs | _ \<Rightarrow> Inl TypeError)"

definition looks_like_json :: "string \<Rightarrow> bool" where
  "looks_like_json s \<longleftrightarrow>
     2 \<le> length s \<and>
     ((hd s = CHR ''{'' \<and> last s = CHR ''}'') \<or> (hd s = CHR ''['' \<and> last s = CHR '']''))"

definition jq_data_conv :: "json_parser \<Rightarrow> string \<Rightarrow> jsval" where
  "jq_data_conv jp s =
     (if s = ''true'' then JBool True
      else if s = ''false'' then JBool False
      else if s = ''null'' then JNull
      else case parse_dec_int s of
             Some n \<Rightarrow> if dec_int n = s then JNum n
                       else if looks_like_json s then (case jp s of Some v \<Rightarrow> v | None \<Rightarrow> JStr s)
                       else JStr s
           | None \<Rightarrow> if looks_like_json s then (case jp s of Some v \<Rightarrow> v | None \<Rightarrow> JStr s)
                     else JStr s)"

definition jq_data :: "json_parser \<Rightarrow> string option \<Rightarrow> jsval" where
  "jq_data jp a = (case a of None \<Rightarrow> JUndefined | Some s \<Rightarrow> jq_data_conv jp s)"

text \<open>Reading helpers for the statements: \<open>nullish\<close> is the test under which a
  property read throws, \<open>prop_or_undef\<close> the value a read that does not throw yields.\<close>

definition nullish :: "jsval \<Rightarrow> bool" where
  "nullish v \<longleftrightarrow> v = JNull \<or> v = JUndefined"

definition prop_or_undef :: "jsval \<Rightarrow> string \<Rightarrow> jsval" where
  "prop_or_undef v k = (case get_prop v k of Inl _ \<Rightarrow> JUndefined | Inr w \<Rightarrow> w)"

section \<open>Lemmas\<close>

lemma get_prop_eq:
  "get_prop v k = (if nullish v then Inl TypeError else Inr (prop_or_undef v k))"
  by (cases v) (auto simp: nullish_def prop_or_undef_def)

lemma nullish_simps [simp]:
  "nullish JNull" "nullish JUndefined" "\<not> nullish (JObj kvs)" "\<not> nullish (JStr s)"
  "\<not> nullish (JNum n)" "\<not> nullish (JArr vs)" "\<not> nullish (JBool b)"
  by (simp_all add: nullish_def)

lemma prop_or_undef_obj [simp]:
  "prop_or_undef (JObj kvs) k = (case map_of (rev kvs) k of Some v \<Rightarrow> v | None \<Rightarrow> JUndefined)"
  by (simp add: prop_or_undef_def)

lemma get_prop_Inl_iff: "get_prop v k = Inl e \<longleftrightarrow> (v = JNull \<or> v = JUndefined) \<and> e = TypeError"
  by (cases v) auto

lemma get_prop_obj [simp]:
  "get_prop (JObj kvs) k = Inr (case map_of (rev kvs) k of Some v \<Rightarrow> v | None \<Rightarrow> JUndefined)"
  by simp

lemma get_prop_not_nullish:
  "v \<noteq> JNull \<Longrightarrow> v \<noteq> JUndefined \<Longrightarrow> \<exists>w. get_prop v k = Inr w"
  by (cases v) auto

lemma truthy_not_nullish [simp]: "truthy v \<Longrightarrow> \<not> nullish v"
  by (cases v) (auto simp: nullish_def)

lemma js_array_map_JArr [simp]: "js_array_map f (JArr vs) = smap f vs"
  by (simp add: js_array_map_def)

lemma js_array_map_Inr: "js_array_map f v = Inr ys \<longleftrightarrow> (\<exists>vs. v = JArr vs \<and> smap f vs = Inr ys)"
  by (cases v) (auto simp: js_array_map_def)

lemma dec_int_not_keyword: "dec_int n \<noteq> ''true'' \<and> dec_int n \<noteq> ''false'' \<and> dec_int n \<noteq> ''null''"
proof -
  have t: "CHR ''t'' \<notin> set (dec_int n)" and f: "CHR ''f'' \<notin> set (dec_int n)"
    and u: "CHR ''u'' \<notin> set (dec_int n)"
    using dec_int_char_cases [of "CHR ''t''" n] dec_int_char_cases [of "CHR ''f''" n]
      dec_int_char_cases [of "CHR ''u''" n]
    by auto
  then show ?thesis by auto
qed

text \<open>jQuery's conversion gives back the number whose decimal notation it reads.\<close>

lemma jq_data_conv_dec_int [simp]: "jq_data_conv jp (dec_int n) = JNum n"
  using dec_int_not_keyword [of n] by (simp add: jq_data_conv_def)


end
