(* ===== verification/Mappers.thy ===== *)
theory Mappers
  imports JsValue
begin

text \<open>
  The two API mappers of \<open>src/tvmaze.js\<close>, \<open>getShowsByTerm\<close> (lines 18--31) and
  \<open>getEpisodesOfShow\<close> (lines 85--96). Each is an \<open>async\<close> function that issues one
  \<open>axios.get\<close> and, once it resolves, maps \<open>response.data\<close> to display records. The
  model splits each at its \<open>await\<close>: \<open>search_request\<close>/\<open>episodes_request\<close> is the
  request issued, \<open>getShowsByTerm_resume\<close>/\<open>getEpisodesOfShow_resume\<close> the code after
  the \<open>await\<close>, applied to the settled request (\<open>Inl\<close>: axios rejected; \<open>Inr\<close>:
  \<open>response.data\<close>). \<open>getShowsByTerm\<close> and \<open>getEpisodesOfShow\<close> compose the two
  for a given server. Records hold \<open>jsval\<close>s, since the code copies whatever the API
  sends. The typed records \<open>api_show\<close>/\<open>api_episode\<close> describe the payloads the
  TVMaze API documents; \<open>search_json\<close>/\<open>episodes_json\<close> encode them as JSON, and the
  refinement lemmas say the mappers compute the specification's records from them.
\<close>

datatype http_request = HttpGet string "(string \<times> string) list" \<comment> \<open>URL, query parameters\<close>

definition missing_url_image :: string where
  "missing_url_image = ''https://tinyurl.com/tv-missing''"

record show_rec =
  show_id :: jsval
  show_name :: jsval
  show_summary :: jsval
  show_image :: jsval

record episode_rec =
  ep_id :: jsval
  ep_name :: jsval
  ep_season :: jsval
  ep_number :: jsval

section \<open>getShowsByTerm\<close>

definition search_request :: "string \<Rightarrow> http_request" where
  "search_request search_term = HttpGet ''http://api.tvmaze.com/search/shows'' [(''q'', search_term)]"

text \<open>The callback of \<open>response.data.map(info => ...)\<close>, property reads in source order.\<close>

definition show_of_info :: "jsval \<Rightarrow> js_error + show_rec" where
  "show_of_info info =
     sbind (get_prop info ''show'') (\<lambda>sh.
     sbind (get_prop sh ''id'') (\<lambda>i.
     sbind (get_prop sh ''name'') (\<lambda>n.
     sbind (get_prop sh ''summary'') (\<lambda>s.
     sbind (get_prop sh ''image'') (\<lambda>img.
     sbind (if truthy img then get_prop img ''medium'' else Inr (JStr missing_url_image)) (\<lambda>im.
     Inr \<lparr>show_id = i, show_name = n, show_summary = s, show_image = im\<rparr>))))))"

definition getShowsByTerm_resume :: "js_error + jsval \<Rightarrow> js_error + show_rec list" where
  "getShowsByTerm_resume response = sbind response (js_array_map show_of_info)"

definition getShowsByTerm :: "(http_request \<Rightarrow> js_error + jsval) \<Rightarrow> string \<Rightarrow> js_error + show_rec list" where
  "getShowsByTerm server search_term = getShowsByTerm_resume (server (search_request search_term))"

section \<open>getEpisodesOfShow\<close>

definition episodes_request :: "jsval \<Rightarrow> http_request" where
  "episodes_request i = HttpGet (''http://api.tvmaze.com/shows/'' @ js_to_string i @ ''/episodes'') []"

definition episode_of_info :: "jsval \<Rightarrow> js_error + episode_rec" where
  "episode_of_info info =
     sbind (get_prop info ''id'') (\<lambda>i.
     sbind (get_prop info ''name'') (\<lambda>n.
     sbind (get_prop info ''season'') (\<lambda>s.
     sbind (get_prop info ''number'') (\<lambda>k.
     Inr \<lparr>ep_id = i, ep_name = n, ep_season = s, ep_number = k\<rparr>))))"

definition getEpisodesOfShow_resume :: "js_error + jsval \<Rightarrow> js_error + episode_rec list" where
  "getEpisodesOfShow_resume response = sbind response (js_array_map episode_of_info)"

definition getEpisodesOfShow :: "(http_request \<Rightarrow> js_error + jsval) \<Rightarrow> jsval \<Rightarrow> js_error + episode_rec list" where
  "getEpisodesOfShow server i = getEpisodesOfShow_resume (server (episodes_request i))"

section \<open>The TVMaze payloads, typed\<close>

record api_image =
  img_medium :: string
  img_original :: string

record api_show =
  a_id :: int
  a_name :: string
  a_summary :: "string option"
  a_image :: "api_image option"

record api_episode =
  e_id :: int
  e_name :: string
  e_season :: int
  e_number :: int

definition str_or_null :: "string option \<Rightarrow> jsval" where
  "str_or_null s = (case s of None \<Rightarrow> JNull | Some t \<Rightarrow> JStr t)"

definition image_json :: "api_image option \<Rightarrow> jsval" where
  "image_json im = (case im of None \<Rightarrow> JNull
     | Some m \<Rightarrow> JObj [(''medium'', JStr (img_medium m)), (''original'', JStr (img_original m))])"

definition show_json :: "api_show \<Rightarrow> jsval" where
  "show_json s = JObj [(''id'', JNum (a_id s)), (''name'', JStr (a_name s)),
     (''summary'', str_or_null (a_summary s)), (''image'', image_json (a_image s))]"

definition search_json :: "(int \<times> api_show) list \<Rightarrow> jsval" where
  "search_json rs = JArr (map (\<lambda>(score, s). JObj [(''score'', JNum score), (''show'', show_json s)]) rs)"

definition episode_json :: "api_episode \<Rightarrow> jsval" where
  "episode_json e = JObj [(''id'', JNum (e_id e)), (''name'', JStr (e_name e)),
     (''season'', JNum (e_season e)), (''number'', JNum (e_number e))]"

definition episodes_json :: "api_episode list \<Rightarrow> jsval" where
  "episodes_json es = JArr (map episode_json es)"

text \<open>The specification's records (spec, section 3): a show's image is the
  medium-resolution URL when the API gives one, else the placeholder.\<close>

record spec_show =
  ss_id :: int
  ss_name :: string
  ss_summary :: "string option"
  ss_image :: string

definition spec_show_of :: "api_show \<Rightarrow> spec_show" where
  "spec_show_of s = \<lparr>ss_id = a_id s, ss_name = a_name s, ss_summary = a_summary s,
     ss_image = (case a_image s of None \<Rightarrow> missing_url_image | Some m \<Rightarrow> img_medium m)\<rparr>"

definition show_abs :: "show_rec \<Rightarrow> spec_show option" where
  "show_abs r =
     (case (show_id r, show_name r, show_summary r, show_image r) of
        (JNum i, JStr n, JNull, JStr im) \<Rightarrow> Some \<lparr>ss_id = i, ss_name = n, ss_summary = None, ss_image = im\<rparr>
      | (JNum i, JStr n, JStr s, JStr im) \<Rightarrow> Some \<lparr>ss_id = i, ss_name = n, ss_summary = Some s, ss_image = im\<rparr>
      | _ \<Rightarrow> None)"

definition episode_abs :: "episode_rec \<Rightarrow> api_episode option" where
  "episode_abs r =
     (case (ep_id r, ep_name r, ep_season r, ep_number r) of
        (JNum i, JStr n, JNum s, JNum k) \<Rightarrow> Some \<lparr>e_id = i, e_name = n, e_season = s, e_number = k\<rparr>
      | _ \<Rightarrow> None)"

text \<open>Reading of the specification (spec, section 8) used by the statements: the
  record a well-shaped show object is mapped to, and the payload shapes on which the
  mappers do not throw.\<close>

definition show_of_shape :: "jsval \<Rightarrow> show_rec" where
  "show_of_shape sh =
     \<lparr>show_id = prop_or_undef sh ''id'', show_name = prop_or_undef sh ''name'',
      show_summary = prop_or_undef sh ''summary'',
      show_image = (if truthy (prop_or_undef sh ''image'')
                    then prop_or_undef (prop_or_undef sh ''image'') ''medium''
                    else JStr missing_url_image)\<rparr>"

definition episode_of_shape :: "jsval \<Rightarrow> episode_rec" where
  "episode_of_shape e =
     \<lparr>ep_id = prop_or_undef e ''id'', ep_name = prop_or_undef e ''name'',
      ep_season = prop_or_undef e ''season'', ep_number = prop_or_undef e ''number''\<rparr>"

definition search_payload_ok :: "jsval \<Rightarrow> bool" where
  "search_payload_ok data =
     (case data of
        JArr ws \<Rightarrow> list_all (\<lambda>w. \<not> nullish w \<and> \<not> nullish (prop_or_undef w ''show'')) ws
      | _ \<Rightarrow> False)"

definition episodes_payload_ok :: "jsval \<Rightarrow> bool" where
  "episodes_payload_ok data = (case data of JArr es \<Rightarrow> list_all (\<lambda>e. \<not> nullish e) es | _ \<Rightarrow> False)"

declare show_of_info_def [eval_simps] episode_of_info_def [eval_simps]
  getShowsByTerm_resume_def [eval_simps] getEpisodesOfShow_resume_def [eval_simps]
  show_json_def [eval_simps] image_json_def [eval_simps] str_or_null_def [eval_simps]
  search_json_def [eval_simps] episode_json_def [eval_simps] episodes_json_def [eval_simps]

section \<open>Lemmas\<close>

subsection \<open>The callbacks in closed form\<close>

lemma show_of_info_eq:
  "show_of_info info =
     (if nullish info \<or> nullish (prop_or_undef info ''show'') then Inl TypeError
      else Inr (show_of_shape (prop_or_undef info ''show'')))"
  by (simp add: show_of_info_def show_of_shape_def get_prop_eq)

lemma episode_of_info_eq:
  "episode_of_info info = (if nullish info then Inl TypeError else Inr (episode_of_shape info))"
  by (simp add: episode_of_info_def episode_of_shape_def get_prop_eq)

subsection \<open>getShowsByTerm\<close>

lemma getShowsByTerm_resume_rejected [simp]: "getShowsByTerm_resume (Inl e) = Inl e"
  by (simp add: getShowsByTerm_resume_def)

lemma getShowsByTerm_resume_nth:
  assumes "getShowsByTerm_resume (Inr (JArr ws)) = Inr rs"
  shows "length rs = length ws
    \<and> (\<forall>i < length ws. rs ! i = show_of_shape (prop_or_undef (ws ! i) ''show''))"
proof -
  from assms have m: "smap show_of_info ws = Inr rs"
    by (simp add: getShowsByTerm_resume_def)
  then have "\<forall>i < length ws. show_of_info (ws ! i) = Inr (rs ! i)"
    using smap_Inr_nth by blast
  with smap_Inr_length [OF m] show ?thesis
    by (auto simp: show_of_info_eq split: if_splits)
qed

lemma getShowsByTerm_resume_ok:
  assumes "search_payload_ok (JArr ws)"
  shows "getShowsByTerm_resume (Inr (JArr ws)) = Inr (map (\<lambda>w. show_of_shape (prop_or_undef w ''show'')) ws)"
proof -
  have "\<And>w. w \<in> set ws \<Longrightarrow> show_of_info w = Inr (show_of_shape (prop_or_undef w ''show''))"
    using assms by (auto simp: search_payload_ok_def show_of_info_eq list_all_iff)
  then show ?thesis
    by (simp add: getShowsByTerm_resume_def smap_map)
qed

lemma getShowsByTerm_resume_Inr_iff:
  "(\<exists>rs. getShowsByTerm_resume (Inr data) = Inr rs) \<longleftrightarrow> search_payload_ok data"
proof (cases data)
  case (JArr ws)
  have "(\<exists>rs. smap show_of_info ws = Inr rs)
          \<longleftrightarrow> (\<forall>w \<in> set ws. \<not> nullish w \<and> \<not> nullish (prop_or_undef w ''show''))"
    by (simp add: smap_Inr_ex_iff show_of_info_eq)
  with JArr show ?thesis
    by (simp add: getShowsByTerm_resume_def search_payload_ok_def list_all_iff)
qed (simp_all add: getShowsByTerm_resume_def search_payload_ok_def js_array_map_def)

lemma getShowsByTerm_resume_Inl:
  "getShowsByTerm_resume (Inr data) = Inl e \<Longrightarrow> e = TypeError"
proof (cases data)
  case (JArr ws)
  moreover assume "getShowsByTerm_resume (Inr data) = Inl e"
  ultimately have "smap show_of_info ws = Inl e" by (simp add: getShowsByTerm_resume_def)
  then show ?thesis by (auto simp: smap_eq_Inl_iff show_of_info_eq split: if_splits)
qed (auto simp: getShowsByTerm_resume_def js_array_map_def)

lemma show_abs_show_json: "show_abs (show_of_shape (show_json s)) = Some (spec_show_of s)"
  by (cases "a_summary s"; cases "a_image s")
     (simp_all add: show_abs_def show_of_shape_def show_json_def str_or_null_def image_json_def
       spec_show_of_def)

lemma search_json_ok: "search_payload_ok (search_json rs)"
  by (auto simp: search_payload_ok_def search_json_def list_all_iff show_json_def)

subsection \<open>getEpisodesOfShow\<close>

lemma getEpisodesOfShow_resume_rejected [simp]: "getEpisodesOfShow_resume (Inl e) = Inl e"
  by (simp add: getEpisodesOfShow_resume_def)

lemma getEpisodesOfShow_resume_ok:
  assumes "episodes_payload_ok (JArr es)"
  shows "getEpisodesOfShow_resume (Inr (JArr es)) = Inr (map episode_of_shape es)"
proof -
  have "\<And>e. e \<in> set es \<Longrightarrow> episode_of_info e = Inr (episode_of_shape e)"
    using assms by (auto simp: episodes_payload_ok_def episode_of_info_eq list_all_iff)
  then show ?thesis
    by (simp add: getEpisodesOfShow_resume_def smap_map)
qed

lemma getEpisodesOfShow_resume_Inr_iff:
  "(\<exists>rs. getEpisodesOfShow_resume (Inr data) = Inr rs) \<longleftrightarrow> episodes_payload_ok data"
  by (cases data)
     (auto simp: getEpisodesOfShow_resume_def episodes_payload_ok_def js_array_map_def
        smap_Inr_ex_iff episode_of_info_eq list_all_iff)

lemma episode_abs_episode_json: "episode_abs (episode_of_shape (episode_json e)) = Some e"
  by (simp add: episode_abs_def episode_of_shape_def episode_json_def)

lemma episodes_json_ok: "episodes_payload_ok (episodes_json es)"
  by (auto simp: episodes_payload_ok_def episodes_json_def list_all_iff episode_json_def)

lemma search_json_JArr:
  "search_json rs = JArr (map (\<lambda>(score, s). JObj [(''score'', JNum score), (''show'', show_json s)]) rs)"
  by (simp add: search_json_def)

lemma getShowsByTerm_resume_Inl_iff:
  "getShowsByTerm_resume (Inr data) = Inl e \<longleftrightarrow> \<not> search_payload_ok data \<and> e = TypeError"
  using getShowsByTerm_resume_Inr_iff [of data] getShowsByTerm_resume_Inl [of data]
  by (cases "getShowsByTerm_resume (Inr data)") auto

lemma getEpisodesOfShow_resume_Inl_iff:
  "getEpisodesOfShow_resume (Inr data) = Inl e \<longleftrightarrow> \<not> episodes_payload_ok data \<and> e = TypeError"
proof (cases "getEpisodesOfShow_resume (Inr data)")
  case (Inl e')
  have "e' = TypeError"
  proof (cases data)
    case (JArr es)
    with Inl have "smap episode_of_info es = Inl e'" by (simp add: getEpisodesOfShow_resume_def)
    then show ?thesis by (auto simp: smap_eq_Inl_iff episode_of_info_eq split: if_splits)
  qed (use Inl in \<open>auto simp: getEpisodesOfShow_resume_def js_array_map_def\<close>)
  with Inl getEpisodesOfShow_resume_Inr_iff [of data] show ?thesis by auto
next
  case (Inr rs)
  with getEpisodesOfShow_resume_Inr_iff [of data] show ?thesis by auto
qed

subsection \<open>Properties of the mappers\<close>

text \<open>C1: on every payload of the documented shape, \<open>getShowsByTerm\<close> computes the
  specification's show records: one per search result, in the API's order, with the
  show's id, name and summary, and as image the medium-resolution URL when the show has
  an image and the placeholder URL when it has none.\<close>

theorem getShowsByTerm_refines:
  "map_sum id (map show_abs) (getShowsByTerm_resume (Inr (search_json rs)))
     = Inr (map (\<lambda>(score, s). Some (spec_show_of s)) rs)"
proof -
  have ok: "search_payload_ok (search_json rs)" by (rule search_json_ok)
  have "\<And>score s. show_abs (show_of_shape (prop_or_undef
          (JObj [(''score'', JNum score), (''show'', show_json s)]) ''show'')) = Some (spec_show_of s)"
    by (simp add: show_abs_show_json)
  then show ?thesis
    using getShowsByTerm_resume_ok [of "map (\<lambda>(score, s). JObj [(''score'', JNum score), (''show'', show_json s)]) rs"]
      ok
    by (simp add: search_json_JArr case_prod_beta)
qed

text \<open>C2: when a result's show has no image (\<open>null\<close>, or any other falsy value),
  the mapped record's image is the placeholder URL.\<close>

theorem show_image_placeholder:
  assumes "getShowsByTerm_resume (Inr (JArr ws)) = Inr rs" and "i < length ws"
    and "\<not> truthy (prop_or_undef (prop_or_undef (ws ! i) ''show'') ''image'')"
  shows "show_image (rs ! i) = JStr missing_url_image"
  using getShowsByTerm_resume_nth [OF assms(1)] assms(2,3) by (simp add: show_of_shape_def)

theorem show_image_placeholder_witness:
  "getShowsByTerm_resume (Inr (search_json [(1, \<lparr>a_id = 139, a_name = ''Batman'', a_summary = None, a_image = None\<rparr>)]))
     = Inr [\<lparr>show_id = JNum 139, show_name = JStr ''Batman'', show_summary = JNull,
             show_image = JStr missing_url_image\<rparr>]
   \<and> 0 < length [JObj [(''score'', JNum 1), (''show'', show_json \<lparr>a_id = 139, a_name = ''Batman'',
        a_summary = None, a_image = None\<rparr>)]]
   \<and> \<not> truthy (prop_or_undef (prop_or_undef (JObj [(''score'', JNum 1), (''show'', show_json \<lparr>a_id = 139,
        a_name = ''Batman'', a_summary = None, a_image = None\<rparr>)]) ''show'') ''image'')
   \<and> show_image ([\<lparr>show_id = JNum 139, show_name = JStr ''Batman'', show_summary = JNull,
             show_image = JStr missing_url_image\<rparr>] ! 0) = JStr missing_url_image"
proof -
  let ?s = "\<lparr>a_id = 139, a_name = ''Batman'', a_summary = None, a_image = None\<rparr>"
  let ?w = "JObj [(''score'', JNum 1), (''show'', show_json ?s)]"
  let ?r = "\<lparr>show_id = JNum 139, show_name = JStr ''Batman'', show_summary = JNull,
             show_image = JStr missing_url_image\<rparr>"
  have run: "getShowsByTerm_resume (Inr (JArr [?w])) = Inr [?r]"
    by (simp add: eval_simps)
  have falsy: "\<not> truthy (prop_or_undef (prop_or_undef ?w ''show'') ''image'')"
    by (simp add: show_json_def image_json_def)
  from show_image_placeholder [OF run, of 0] run falsy show ?thesis
    by (simp add: search_json_def)
qed

text \<open>C29: when a result's show has an image object, the mapped record's image is that
  object's \<open>medium\<close> field.\<close>

theorem show_image_medium:
  assumes "getShowsByTerm_resume (Inr (JArr ws)) = Inr rs" and "i < length ws"
    and "truthy (prop_or_undef (prop_or_undef (ws ! i) ''show'') ''image'')"
  shows "show_image (rs ! i) = prop_or_undef (prop_or_undef (prop_or_undef (ws ! i) ''show'') ''image'') ''medium''"
  using getShowsByTerm_resume_nth [OF assms(1)] assms(2,3) by (simp add: show_of_shape_def)

theorem show_image_medium_witness:
  "getShowsByTerm_resume (Inr (JArr [JObj [(''show'', JObj [(''id'', JNum 1), (''image'',
        JObj [(''medium'', JStr ''m.jpg'')])])]]))
     = Inr [\<lparr>show_id = JNum 1, show_name = JUndefined, show_summary = JUndefined, show_image = JStr ''m.jpg''\<rparr>]
   \<and> show_image ([\<lparr>show_id = JNum 1, show_name = JUndefined, show_summary = JUndefined,
        show_image = JStr ''m.jpg''\<rparr>] ! 0) = JStr ''m.jpg''"
proof -
  let ?w = "JObj [(''show'', JObj [(''id'', JNum 1), (''image'', JObj [(''medium'', JStr ''m.jpg'')])])]"
  have run: "getShowsByTerm_resume (Inr (JArr [?w]))
     = Inr [\<lparr>show_id = JNum 1, show_name = JUndefined, show_summary = JUndefined, show_image = JStr ''m.jpg''\<rparr>]"
    by (simp add: eval_simps)
  from show_image_medium [OF run, of 0] run show ?thesis by simp
qed

text \<open>C3: mapping a search response preserves order and cardinality: the \<open>i\<close>-th record
  carries the \<open>id\<close>, \<open>name\<close> and \<open>summary\<close> of the \<open>i\<close>-th result's show.\<close>

theorem getShowsByTerm_order_fields:
  assumes "getShowsByTerm_resume (Inr (JArr ws)) = Inr rs"
  shows "length rs = length ws \<and>
    (\<forall>i < length ws. show_id (rs ! i) = prop_or_undef (prop_or_undef (ws ! i) ''show'') ''id''
       \<and> show_name (rs ! i) = prop_or_undef (prop_or_undef (ws ! i) ''show'') ''name''
       \<and> show_summary (rs ! i) = prop_or_undef (prop_or_undef (ws ! i) ''show'') ''summary'')"
  using getShowsByTerm_resume_nth [OF assms] by (simp add: show_of_shape_def)

theorem getShowsByTerm_order_fields_witness:
  "getShowsByTerm_resume (Inr (JArr [JObj [(''show'', JObj [(''id'', JNum 7), (''name'', JStr ''A'')])],
                                     JObj [(''show'', JObj [(''id'', JNum 8), (''name'', JStr ''B'')])]]))
     = Inr [\<lparr>show_id = JNum 7, show_name = JStr ''A'', show_summary = JUndefined, show_image = JStr missing_url_image\<rparr>,
            \<lparr>show_id = JNum 8, show_name = JStr ''B'', show_summary = JUndefined, show_image = JStr missing_url_image\<rparr>]
   \<and> length [\<lparr>show_id = JNum 7, show_name = JStr ''A'', show_summary = JUndefined, show_image = JStr missing_url_image\<rparr>,
            \<lparr>show_id = JNum 8, show_name = JStr ''B'', show_summary = JUndefined, show_image = JStr missing_url_image\<rparr>] = 2"
proof -
  have run: "getShowsByTerm_resume (Inr (JArr [JObj [(''show'', JObj [(''id'', JNum 7), (''name'', JStr ''A'')])],
                                     JObj [(''show'', JObj [(''id'', JNum 8), (''name'', JStr ''B'')])]]))
     = Inr [\<lparr>show_id = JNum 7, show_name = JStr ''A'', show_summary = JUndefined, show_image = JStr missing_url_image\<rparr>,
            \<lparr>show_id = JNum 8, show_name = JStr ''B'', show_summary = JUndefined, show_image = JStr missing_url_image\<rparr>]"
    by (simp add: eval_simps)
  from getShowsByTerm_order_fields [OF run] run show ?thesis by simp
qed

text \<open>C30: \<open>getShowsByTerm\<close> fails exactly in these cases: the request is rejected (the
  rejection propagates unchanged), or the body is not an array of results whose
  \<open>show\<close> is neither \<open>null\<close> nor \<open>undefined\<close> (a \<open>TypeError\<close>).\<close>

theorem getShowsByTerm_errors:
  "getShowsByTerm_resume (Inl e) = Inl e
   \<and> (getShowsByTerm_resume (Inr data) = Inl e \<longleftrightarrow> \<not> search_payload_ok data \<and> e = TypeError)"
  by (simp add: getShowsByTerm_resume_Inl_iff)

text \<open>C22: mapping an episode response preserves order, cardinality and the four fields
  \<open>id\<close>, \<open>name\<close>, \<open>season\<close>, \<open>number\<close> of every episode verbatim.\<close>

theorem getEpisodesOfShow_verbatim:
  assumes "getEpisodesOfShow_resume (Inr (JArr es)) = Inr rs"
  shows "rs = map episode_of_shape es"
proof -
  from assms have "episodes_payload_ok (JArr es)"
    using getEpisodesOfShow_resume_Inr_iff by blast
  with assms show ?thesis by (simp add: getEpisodesOfShow_resume_ok)
qed

theorem getEpisodesOfShow_verbatim_witness:
  "getEpisodesOfShow_resume (Inr (JArr [JObj [(''id'', JNum 1), (''name'', JStr ''Pilot''),
       (''season'', JNum 1), (''number'', JNum 1), (''runtime'', JNum 60)]]))
     = Inr [\<lparr>ep_id = JNum 1, ep_name = JStr ''Pilot'', ep_season = JNum 1, ep_number = JNum 1\<rparr>]
   \<and> [\<lparr>ep_id = JNum 1, ep_name = JStr ''Pilot'', ep_season = JNum 1, ep_number = JNum 1\<rparr>]
       = map episode_of_shape [JObj [(''id'', JNum 1), (''name'', JStr ''Pilot''),
       (''season'', JNum 1), (''number'', JNum 1), (''runtime'', JNum 60)]]"
proof -
  have run: "getEpisodesOfShow_resume (Inr (JArr [JObj [(''id'', JNum 1), (''name'', JStr ''Pilot''),
       (''season'', JNum 1), (''number'', JNum 1), (''runtime'', JNum 60)]]))
     = Inr [\<lparr>ep_id = JNum 1, ep_name = JStr ''Pilot'', ep_season = JNum 1, ep_number = JNum 1\<rparr>]"
    by (simp add: eval_simps)
  from getEpisodesOfShow_verbatim [OF run] run show ?thesis by simp
qed

text \<open>C4: on every payload of the documented shape, \<open>getEpisodesOfShow\<close> returns the
  API's episodes, in the API's order, with their four fields.\<close>

theorem getEpisodesOfShow_refines:
  "map_sum id (map episode_abs) (getEpisodesOfShow_resume (Inr (episodes_json es))) = Inr (map Some es)"
  using getEpisodesOfShow_resume_ok [of "map episode_json es"] episodes_json_ok [of es]
  by (simp add: episodes_json_def episode_abs_episode_json)

text \<open>C31: \<open>getEpisodesOfShow\<close> fails exactly when the request is rejected (the rejection
  propagates) or the body is not an array of non-null values (a \<open>TypeError\<close>).\<close>

theorem getEpisodesOfShow_errors:
  "getEpisodesOfShow_resume (Inl e) = Inl e
   \<and> (getEpisodesOfShow_resume (Inr data) = Inl e \<longleftrightarrow> \<not> episodes_payload_ok data \<and> e = TypeError)"
  by (simp add: getEpisodesOfShow_resume_Inl_iff)

end
