(* ===== verification/Html.thy ===== *)
theory Html
  imports Prelude "HOL-Library.Sublist"
begin

text \<open>
  The HTML tokenizer of the browser, as far as \<open>src/tvmaze.js\<close> relies on it when it
  builds elements from template markup (\<open>$(markup)\<close>) and reads their attributes back.
  \<^item> \<open>attrs_scan\<close>: the attribute states of a start tag (names, double-, single- and
    unquoted values, ASCII case folding of names) from just after the tag name to its
    closing \<open>>\<close>, with the input after the tag; \<open>tag_attrs\<close> keeps the attributes.
  \<^item> \<open>split_ws\<close>: an attribute value split at white space (the class list).
  \<^item> \<open>scan_closed\<close>: the tag is closed within the input; \<open>attrs_scan_append\<close>: then the
    scan of the input followed by anything reads the same attributes.
  Not modelled: the preprocessing of the input stream (CR and NUL) and character
  references in attribute values (\<open>&amp;\<close> and the like), which the statements exclude
  by \<open>attr_safe\<close> (no double quote, \<open>&\<close>, CR or NUL) where an attribute value matters.
\<close>

section \<open>Definitions\<close>

definition is_html_ws :: "char \<Rightarrow> bool" where
  "is_html_ws c \<longleftrightarrow> c = CHR '' '' \<or> c = CHR 0x0A \<or> c = CHR 0x09 \<or> c = CHR 0x0C \<or> c = CHR 0x0D"

definition attr_name_char :: "char \<Rightarrow> bool" where
  "attr_name_char c \<longleftrightarrow> \<not> is_html_ws c \<and> c \<noteq> CHR ''/'' \<and> c \<noteq> CHR ''>'' \<and> c \<noteq> CHR ''=''"

definition tag_name_char :: "char \<Rightarrow> bool" where
  "tag_name_char c \<longleftrightarrow> \<not> is_html_ws c \<and> c \<noteq> CHR ''/'' \<and> c \<noteq> CHR ''>''"

definition unquoted_char :: "char \<Rightarrow> bool" where
  "unquoted_char c \<longleftrightarrow> \<not> is_html_ws c \<and> c \<noteq> CHR ''>''"

definition ascii_lower :: "char \<Rightarrow> char" where
  "ascii_lower c = (if 65 \<le> (of_char c :: nat) \<and> (of_char c :: nat) \<le> 90 then char_of (of_char c + 32 :: nat) else c)"

definition is_ascii_alpha :: "char \<Rightarrow> bool" where
  "is_ascii_alpha c \<longleftrightarrow>
     (65 \<le> (of_char c :: nat) \<and> (of_char c :: nat) \<le> 90) \<or> (97 \<le> (of_char c :: nat) \<and> (of_char c :: nat) \<le> 122)"

text \<open>The attributes of a start tag, from just after its name, and the input after the
  tag's closing \<open>>\<close> (empty when the input ends inside the tag).\<close>

function attrs_scan :: "string \<Rightarrow> (string \<times> string) list \<times> string" where
  "attrs_scan s =
     (case dropWhile is_html_ws s of
        [] \<Rightarrow> ([], [])
      | c # r \<Rightarrow>
          if c = CHR ''>'' then ([], r)
          else if c = CHR ''/'' then attrs_scan r
          else
            (case dropWhile is_html_ws (dropWhile attr_name_char r) of
               [] \<Rightarrow> ([(map ascii_lower (c # takeWhile attr_name_char r), [])], [])
             | e # v \<Rightarrow>
                 if e \<noteq> CHR ''='' then
                   apfst (Cons (map ascii_lower (c # takeWhile attr_name_char r), [])) (attrs_scan (e # v))
                 else
                   (case dropWhile is_html_ws v of
                      [] \<Rightarrow> ([(map ascii_lower (c # takeWhile attr_name_char r), [])], [])
                    | q # w \<Rightarrow>
                        if q = CHR 0x22 \<or> q = CHR 0x27 then
                          apfst (Cons (map ascii_lower (c # takeWhile attr_name_char r), takeWhile (\<lambda>x. x \<noteq> q) w))
                            (attrs_scan (drop 1 (dropWhile (\<lambda>x. x \<noteq> q) w)))
                        else
                          apfst (Cons (map ascii_lower (c # takeWhile attr_name_char r), takeWhile unquoted_char (q # w)))
                            (attrs_scan (dropWhile unquoted_char (q # w))))))"
  by pat_completeness auto
termination
  by (relation "measure length")
     (auto dest!: arg_cong [where f = length] simp: length_dropWhile_eq)

definition tag_attrs :: "string \<Rightarrow> (string \<times> string) list" where
  "tag_attrs s = fst (attrs_scan s)"

declare attrs_scan.simps [simp del]

function split_ws :: "string \<Rightarrow> string list" where
  "split_ws s =
     (if dropWhile is_html_ws s = [] then []
      else takeWhile (\<lambda>c. \<not> is_html_ws c) (dropWhile is_html_ws s)
             # split_ws (dropWhile (\<lambda>c. \<not> is_html_ws c) (dropWhile is_html_ws s)))"
  by pat_completeness auto
termination
  by (relation "measure length") (auto simp: length_dropWhile_dropWhile_less)

declare split_ws.simps [simp del]

text \<open>Whether the attribute states reach the tag's closing \<open>>\<close> within the input
  (the same recursion as \<open>attrs_scan\<close>): then what follows the input does not change
  the tag.\<close>

function scan_closed :: "string \<Rightarrow> bool" where
  "scan_closed s =
     (case dropWhile is_html_ws s of
        [] \<Rightarrow> False
      | c # r \<Rightarrow>
          if c = CHR ''>'' then True
          else if c = CHR ''/'' then scan_closed r
          else
            (case dropWhile is_html_ws (dropWhile attr_name_char r) of
               [] \<Rightarrow> False
             | e # v \<Rightarrow>
                 if e \<noteq> CHR ''='' then scan_closed (e # v)
                 else
                   (case dropWhile is_html_ws v of
                      [] \<Rightarrow> False
                    | q # w \<Rightarrow>
                        if q = CHR 0x22 \<or> q = CHR 0x27 then scan_closed (drop 1 (dropWhile (\<lambda>x. x \<noteq> q) w))
                        else scan_closed (dropWhile unquoted_char (q # w)))))"
  by pat_completeness auto
termination
  by (relation "measure length")
     (auto dest!: arg_cong [where f = length] simp: length_dropWhile_eq)

declare scan_closed.simps [simp del]

definition attr_safe :: "string \<Rightarrow> bool" where
  "attr_safe s \<longleftrightarrow> CHR 0x22 \<notin> set s \<and> CHR ''&'' \<notin> set s \<and> CHR 0x0D \<notin> set s \<and> CHR 0x00 \<notin> set s"

section \<open>Lemmas\<close>

lemma attrs_scan_suffix: "suffix (snd (attrs_scan s)) s"
proof (induction s rule: attrs_scan.induct)
  case (1 s)
  note IH = "1.IH"
  show ?case
  proof (cases "dropWhile is_html_ws s")
    case Nil
    then show ?thesis by (subst attrs_scan.simps) (simp del: dropWhile_eq_Nil_conv)
  next
    case (Cons c r)
    have sr: "suffix r s" using suffix_dropWhile [of is_html_ws s] Cons by (auto dest: suffix_ConsD)
    show ?thesis
    proof (cases "c = CHR ''>'' \<or> c = CHR ''/''")
      case True
      with IH(1) [OF Cons] sr Cons show ?thesis
        by (subst attrs_scan.simps) (auto intro: suffix_order.trans)
    next
      case c: False
      define D where "D = dropWhile is_html_ws (dropWhile attr_name_char r)"
      have sD: "suffix D s"
        using sr suffix_dropWhile [of attr_name_char r] suffix_dropWhile [of is_html_ws "dropWhile attr_name_char r"]
        by (auto simp: D_def intro: suffix_order.trans)
      show ?thesis
      proof (cases D)
        case Nil
        with Cons c show ?thesis by (subst attrs_scan.simps) (simp add: D_def del: dropWhile_eq_Nil_conv)
      next
        case (Cons e v)
        note D = this
        show ?thesis
        proof (cases "e = CHR ''=''")
          case False
          with IH(2) [OF \<open>dropWhile is_html_ws s = c # r\<close>] c D sD show ?thesis
            by (subst attrs_scan.simps) (auto simp: D_def \<open>dropWhile is_html_ws s = c # r\<close> intro: suffix_order.trans)
        next
          case True
          have sv: "suffix v s" using sD D by (auto dest: suffix_ConsD)
          define W where "W = dropWhile is_html_ws v"
          have sW: "suffix W s" using sv suffix_dropWhile [of is_html_ws v] by (auto simp: W_def intro: suffix_order.trans)
          show ?thesis
          proof (cases W)
            case Nil
            with True D c \<open>dropWhile is_html_ws s = c # r\<close> show ?thesis
              by (subst attrs_scan.simps) (simp add: D_def W_def del: dropWhile_eq_Nil_conv)
          next
            case (Cons q w)
            have sw: "suffix w s" using sW Cons by (auto dest: suffix_ConsD)
            have s1: "suffix (drop 1 (dropWhile (\<lambda>x. x \<noteq> q) w)) s"
              using sw suffix_drop suffix_dropWhile by (blast intro: suffix_order.trans)
            have s2: "suffix (dropWhile unquoted_char (q # w)) s"
              using sW Cons suffix_dropWhile by (metis suffix_order.trans)
            note cr = \<open>dropWhile is_html_ws s = c # r\<close>
            have ih3: "suffix (snd (attrs_scan (drop 1 (dropWhile (\<lambda>x. x \<noteq> q) w)))) (drop 1 (dropWhile (\<lambda>x. x \<noteq> q) w))"
              if "q = CHR 0x22 \<or> q = CHR 0x27"
              using that c True D Cons cr by (intro IH(3)) (auto simp: D_def W_def)
            have ih4: "suffix (snd (attrs_scan (dropWhile unquoted_char (q # w)))) (dropWhile unquoted_char (q # w))"
              if "\<not> (q = CHR 0x22 \<or> q = CHR 0x27)"
              using that c True D Cons cr by (intro IH(4)) (auto simp: D_def W_def)
            show ?thesis
            proof (cases "q = CHR 0x22 \<or> q = CHR 0x27")
              case q: True
              with ih3 s1 True D Cons c cr show ?thesis
                by (subst attrs_scan.simps) (auto simp: D_def W_def intro: suffix_order.trans)
            next
              case q: False
              with ih4 s2 True D Cons c cr show ?thesis
                by (subst attrs_scan.simps) (auto simp: D_def W_def intro: suffix_order.trans)
            qed
          qed
        qed
      qed
    qed
  qed
qed


lemma length_attrs_scan_rest: "length (snd (attrs_scan s)) \<le> length s"
  using attrs_scan_suffix [of s] unfolding suffix_def by (metis le_add2 length_append)

lemma dropWhile_ws_prefix:
  "list_all is_html_ws ws \<Longrightarrow> \<not> is_html_ws c \<Longrightarrow> dropWhile is_html_ws (ws @ c # r) = c # r"
  by (induction ws) auto

lemma attrs_scan_quoted:
  assumes "list_all is_html_ws ws" "attr_name_char c" "list_all attr_name_char ns"
    and "q = CHR 0x22 \<or> q = CHR 0x27" "q \<notin> set v"
  shows "attrs_scan (ws @ c # ns @ CHR ''='' # q # v @ q # rest)
    = apfst (Cons (map ascii_lower (c # ns), v)) (attrs_scan rest)"
proof -
  have c: "\<not> is_html_ws c" "c \<noteq> CHR ''>''" "c \<noteq> CHR ''/''"
    using assms(2) by (auto simp: attr_name_char_def)
  have eq: "\<not> attr_name_char (CHR ''='')" "\<not> is_html_ws (CHR ''='')"
    by (simp_all add: attr_name_char_def is_html_ws_def)
  have q: "\<not> is_html_ws q"
    using assms(4) by (auto simp: is_html_ws_def)
  have tw: "takeWhile attr_name_char (ns @ CHR ''='' # q # v @ q # rest) = ns"
    and dw: "dropWhile attr_name_char (ns @ CHR ''='' # q # v @ q # rest) = CHR ''='' # q # v @ q # rest"
    using assms(3) eq by (simp_all add: takeWhile_append2 dropWhile_append2 list_all_iff)
  have tv: "takeWhile (\<lambda>x. x \<noteq> q) (v @ q # rest) = v"
    and dv: "dropWhile (\<lambda>x. x \<noteq> q) (v @ q # rest) = q # rest"
  proof -
    have "\<And>x. x \<in> set v \<Longrightarrow> x \<noteq> q" using assms(5) by auto
    then show "takeWhile (\<lambda>x. x \<noteq> q) (v @ q # rest) = v"
      and "dropWhile (\<lambda>x. x \<noteq> q) (v @ q # rest) = q # rest"
      by (simp_all add: takeWhile_append2 dropWhile_append2)
  qed
  show ?thesis
    apply (subst attrs_scan.simps)
    using assms(1,4) c q eq tw dw tv dv
    by (simp add: dropWhile_ws_prefix)
qed

lemma attrs_scan_unquoted:
  assumes "list_all is_html_ws ws" "attr_name_char c" "list_all attr_name_char ns"
    and "q \<noteq> CHR 0x22" "q \<noteq> CHR 0x27" "list_all unquoted_char (q # v)" "\<not> unquoted_char x"
  shows "attrs_scan (ws @ c # ns @ CHR ''='' # q # v @ x # rest)
    = apfst (Cons (map ascii_lower (c # ns), q # v)) (attrs_scan (x # rest))"
proof -
  have c: "\<not> is_html_ws c" "c \<noteq> CHR ''>''" "c \<noteq> CHR ''/''"
    using assms(2) by (auto simp: attr_name_char_def)
  have eq: "\<not> attr_name_char (CHR ''='')" "\<not> is_html_ws (CHR ''='')"
    by (simp_all add: attr_name_char_def is_html_ws_def)
  have q: "\<not> is_html_ws q" using assms(6) by (simp add: unquoted_char_def)
  have tw: "takeWhile attr_name_char (ns @ CHR ''='' # q # v @ x # rest) = ns"
    and dw: "dropWhile attr_name_char (ns @ CHR ''='' # q # v @ x # rest) = CHR ''='' # q # v @ x # rest"
    using assms(3) eq by (simp_all add: takeWhile_append2 dropWhile_append2 list_all_iff)
  have tv: "takeWhile unquoted_char (q # v @ x # rest) = q # v"
    and dv: "dropWhile unquoted_char (q # v @ x # rest) = x # rest"
    using assms(6,7) by (simp_all add: takeWhile_append2 dropWhile_append2 list_all_iff)
  show ?thesis
    apply (subst attrs_scan.simps)
    using assms(1,4,5) c q eq tw dw tv dv
    by (simp add: dropWhile_ws_prefix)
qed

lemma attrs_scan_close:
  "list_all is_html_ws ws \<Longrightarrow> attrs_scan (ws @ CHR ''>'' # rest) = ([], rest)"
  by (subst attrs_scan.simps) (simp add: dropWhile_ws_prefix is_html_ws_def)

lemma tag_attrs_quoted:
  assumes "list_all is_html_ws ws" "attr_name_char c" "list_all attr_name_char ns"
    and "q = CHR 0x22 \<or> q = CHR 0x27" "q \<notin> set v"
  shows "tag_attrs (ws @ c # ns @ CHR ''='' # q # v @ q # rest) = (map ascii_lower (c # ns), v) # tag_attrs rest"
  using attrs_scan_quoted [OF assms] by (simp add: tag_attrs_def apfst_def map_prod_def split_beta)

lemma tag_attrs_close: "list_all is_html_ws ws \<Longrightarrow> tag_attrs (ws @ CHR ''>'' # rest) = []"
  by (simp add: tag_attrs_def attrs_scan_close)

lemma ascii_lower_id [simp]: "\<not> (65 \<le> (of_char c :: nat) \<and> (of_char c :: nat) \<le> 90) \<Longrightarrow> ascii_lower c = c"
  by (auto simp: ascii_lower_def)

lemma attr_safe_quote: "attr_safe s \<Longrightarrow> CHR 0x22 \<notin> set s"
  by (simp add: attr_safe_def)

lemma attr_safe_dec_int [simp]: "attr_safe (dec_int i)"
proof -
  have "\<And>c. c \<in> set (dec_int i) \<Longrightarrow> c \<noteq> CHR 0x22 \<and> c \<noteq> CHR ''&'' \<and> c \<noteq> CHR 0x0D \<and> c \<noteq> CHR 0x00"
    by (drule dec_int_char_cases) auto
  then show ?thesis by (auto simp: attr_safe_def)
qed

lemma scan_closed_Nil [simp]: "\<not> scan_closed []"
  by (simp add: scan_closed.simps)

lemma dropWhile_append_Cons:
  "dropWhile P xs = y # ys \<Longrightarrow> dropWhile P (xs @ zs) = y # ys @ zs \<and> takeWhile P (xs @ zs) = takeWhile P xs"
  by (induction xs) (auto split: if_splits)

lemma attrs_scan_append:
  "scan_closed s \<Longrightarrow> attrs_scan (s @ b) = (fst (attrs_scan s), snd (attrs_scan s) @ b)"
proof (induction s rule: attrs_scan.induct)
  case (1 s)
  note IH = "1.IH" and cl = "1.prems"
  show ?case
  proof (cases "dropWhile is_html_ws s")
    case Nil
    with cl show ?thesis by (subst (asm) scan_closed.simps) (simp del: dropWhile_eq_Nil_conv)
  next
    case (Cons c r)
    note cr = this
    note a = dropWhile_append_Cons [OF cr, of b]
    show ?thesis
    proof (cases "c = CHR ''>''")
      case True
      with cr a show ?thesis by (simp add: attrs_scan.simps [of "s @ b"] attrs_scan.simps [of s])
    next
      case c1: False
      show ?thesis
      proof (cases "c = CHR ''/''")
        case True
        with cr cl have "scan_closed r" by (subst (asm) scan_closed.simps) simp
        with IH(1) [OF cr c1 True] True cr a show ?thesis
          by (simp add: attrs_scan.simps [of "s @ b"] attrs_scan.simps [of s])
      next
        case c2: False
        show ?thesis
        proof (cases "dropWhile is_html_ws (dropWhile attr_name_char r)")
          case Nil
          with cr cl c1 c2 show ?thesis by (subst (asm) scan_closed.simps) (simp del: dropWhile_eq_Nil_conv)
        next
          case (Cons e v)
          note D = this
          have d: "dropWhile attr_name_char r \<noteq> []"
          proof
            assume "dropWhile attr_name_char r = []"
            with D show False by (simp del: dropWhile_eq_Nil_conv)
          qed
          then obtain y ys where dy: "dropWhile attr_name_char r = y # ys" by (cases "dropWhile attr_name_char r") auto
          note a2 = dropWhile_append_Cons [OF dy, of b]
          note a3 = dropWhile_append_Cons [OF D [unfolded dy], of b]
          have D': "dropWhile is_html_ws (dropWhile attr_name_char (r @ b)) = e # v @ b"
            using a2 a3 dy by simp
          have T': "takeWhile attr_name_char (r @ b) = takeWhile attr_name_char r" using a2 by simp
          show ?thesis
          proof (cases "e = CHR ''=''")
            case False
            with cr cl c1 c2 D have "scan_closed (e # v)" by (subst (asm) scan_closed.simps) simp
            with IH(2) [OF cr c1 c2 D False] False cr a c1 c2 D D' T' show ?thesis
              by (simp add: attrs_scan.simps [of "s @ b"] attrs_scan.simps [of s] apfst_def map_prod_def split_beta)
          next
            case True
            then have ne': "\<not> e \<noteq> CHR ''=''" by simp
            show ?thesis
            proof (cases "dropWhile is_html_ws v")
              case Nil
              with True cr cl c1 c2 D show ?thesis by (subst (asm) scan_closed.simps) (simp del: dropWhile_eq_Nil_conv)
            next
              case (Cons q w)
              note W = this
              note a4 = dropWhile_append_Cons [OF W, of b]
              show ?thesis
              proof (cases "q = CHR 0x22 \<or> q = CHR 0x27")
                case q: True
                with W True cr cl c1 c2 D have cl': "scan_closed (drop 1 (dropWhile (\<lambda>x. x \<noteq> q) w))"
                  by (subst (asm) scan_closed.simps) simp
                have ne: "dropWhile (\<lambda>x. x \<noteq> q) w \<noteq> []"
                  using cl' by (auto simp del: dropWhile_eq_Nil_conv)
                then obtain z zs where dz: "dropWhile (\<lambda>x. x \<noteq> q) w = z # zs" by (cases "dropWhile (\<lambda>x. x \<noteq> q) w") auto
                note a5 = dropWhile_append_Cons [OF dz, of b]
                have ih: "attrs_scan (drop 1 (dropWhile (\<lambda>x. x \<noteq> q) w) @ b) =
                    (fst (attrs_scan (drop 1 (dropWhile (\<lambda>x. x \<noteq> q) w))), snd (attrs_scan (drop 1 (dropWhile (\<lambda>x. x \<noteq> q) w))) @ b)"
                  using IH(3) [OF cr c1 c2 D ne' W q cl'] .
                from ih q W True cr a c1 c2 D D' T' a4 a5 dz show ?thesis
                  by (simp add: attrs_scan.simps [of "s @ b"] attrs_scan.simps [of s] apfst_def map_prod_def split_beta)
              next
                case q: False
                with W True cr cl c1 c2 D have cl': "scan_closed (dropWhile unquoted_char (q # w))"
                  by (subst (asm) scan_closed.simps) simp
                have ne: "dropWhile unquoted_char (q # w) \<noteq> []"
                  using cl' by (auto simp del: dropWhile_eq_Nil_conv)
                then obtain z zs where dz: "dropWhile unquoted_char (q # w) = z # zs" by (cases "dropWhile unquoted_char (q # w)") auto
                note a5 = dropWhile_append_Cons [OF dz, of b]
                have ih: "attrs_scan (dropWhile unquoted_char (q # w) @ b) =
                    (fst (attrs_scan (dropWhile unquoted_char (q # w))), snd (attrs_scan (dropWhile unquoted_char (q # w))) @ b)"
                  using IH(4) [OF cr c1 c2 D ne' W q cl'] .
                from ih q W True cr a c1 c2 D D' T' a4 a5 dz show ?thesis
                  by (simp add: attrs_scan.simps [of "s @ b"] attrs_scan.simps [of s] apfst_def map_prod_def split_beta)
              qed
            qed
          qed
        qed
      qed
    qed
  qed
qed

end
