(* ===== verification/Tree_Builder.thy ===== *)
theory Tree_Builder
  imports Html
begin

text \<open>
  The browser's reading of a markup fragment into elements, as far as
  \<open>$(evt.target).closest(".Show")\<close> (line 112 of \<open>src/tvmaze.js\<close>) depends on it:
  which elements enclose a given element.
  \<^item> \<open>tag_tokens\<close>: the start and end tags of a fragment in document order (the
    tokenizer's data, tag open, end tag open and attribute states; an end tag's
    attributes are read and dropped), through \<open>attrs_scan\<close> of theory \<open>Html\<close>;
    \<open>tok_closed\<close>: the fragment ends outside a tag, so that what follows it is
    tokenized on its own (\<open>tag_tokens_append\<close>).
  \<^item> \<open>tree_step\<close>: the stack of open elements (innermost first) under the tree builder's
    generic rules of the "in body" mode: a start tag opens an element unless it is
    void, an end tag closes the innermost open element of its name and all inside it,
    and is ignored when none is open. \<open>element_path t\<close> gives the last element with tag
    \<open>t\<close> together with its ancestors within the fragment.
  \<^item> \<open>balanced_markup\<close>: markup that closes every element it opens and closes none it
    did not open; it leaves the stack of open elements as it found it
    (\<open>balanced_markup_run\<close>). Text without \<open><\<close>, and summaries such as
    \<open><p><b>Batman</b> ...</p>\<close>, are balanced.
  Not modelled: the special rules of the tree builder (implied end tags of \<open>p\<close>,
  \<open>li\<close> and headings, the formatting elements' adoption agency, tables, foreign
  content, raw-text elements and comments, a tag cut off by the end of the input); on
  balanced markup of ordinary elements the stack they leave is the same.
\<close>

section \<open>Definitions\<close>

datatype html_token = StartTag string "(string \<times> string) list" | EndTag string

function tag_tokens :: "string \<Rightarrow> html_token list" where
  "tag_tokens h =
     (case dropWhile (\<lambda>c. c \<noteq> CHR ''<'') h of
        [] \<Rightarrow> []
      | _ # r \<Rightarrow>
          (case r of
             [] \<Rightarrow> []
           | c # r' \<Rightarrow>
               if is_ascii_alpha c then
                 StartTag (map ascii_lower (takeWhile tag_name_char r)) (fst (attrs_scan (dropWhile tag_name_char r)))
                 # tag_tokens (snd (attrs_scan (dropWhile tag_name_char r)))
               else if c = CHR ''/'' \<and> r' \<noteq> [] \<and> is_ascii_alpha (hd r') then
                 EndTag (map ascii_lower (takeWhile tag_name_char r'))
                 # tag_tokens (snd (attrs_scan (dropWhile tag_name_char r')))
               else tag_tokens r))"
  by pat_completeness auto
termination
  by (relation "measure length")
     (auto dest!: arg_cong [where f = length] simp: length_dropWhile_eq
        intro: le_less_trans [OF length_attrs_scan_rest] le_less_trans [OF length_attrs_scan_rest le_less_trans])

declare tag_tokens.simps [simp del]

function tok_closed :: "string \<Rightarrow> bool" where
  "tok_closed h =
     (case dropWhile (\<lambda>c. c \<noteq> CHR ''<'') h of
        [] \<Rightarrow> True
      | _ # r \<Rightarrow>
          (case r of
             [] \<Rightarrow> False
           | c # r' \<Rightarrow>
               if is_ascii_alpha c then
                 scan_closed (dropWhile tag_name_char r) \<and> tok_closed (snd (attrs_scan (dropWhile tag_name_char r)))
               else if c = CHR ''/'' then
                 r' \<noteq> [] \<and>
                 (if is_ascii_alpha (hd r') then
                    scan_closed (dropWhile tag_name_char r') \<and> tok_closed (snd (attrs_scan (dropWhile tag_name_char r')))
                  else tok_closed r)
               else tok_closed r))"
  by pat_completeness auto
termination
  by (relation "measure length")
     (auto dest!: arg_cong [where f = length] simp: length_dropWhile_eq
        intro: le_less_trans [OF length_attrs_scan_rest] le_less_trans [OF length_attrs_scan_rest le_less_trans])

declare tok_closed.simps [simp del]

definition void_element :: "string \<Rightarrow> bool" where
  "void_element n \<longleftrightarrow> n \<in> set [''area'', ''base'', ''br'', ''col'', ''embed'', ''hr'', ''img'', ''input'',
     ''link'', ''meta'', ''source'', ''track'', ''wbr'']"

type_synonym element = "string \<times> (string \<times> string) list"

fun tree_step :: "element list \<Rightarrow> html_token \<Rightarrow> element list" where
  "tree_step stk (StartTag n as) = (if void_element n then stk else (n, as) # stk)"
| "tree_step stk (EndTag n) =
     (if n \<in> set (map fst stk) then tl (dropWhile (\<lambda>e. fst e \<noteq> n) stk) else stk)"

fun element_path :: "string \<Rightarrow> element list \<Rightarrow> element list option \<Rightarrow> html_token list \<Rightarrow> element list option" where
  "element_path t stk acc [] = acc"
| "element_path t stk acc (StartTag n as # ts) =
     element_path t (tree_step stk (StartTag n as)) (if n = t then Some ((n, as) # stk) else acc) ts"
| "element_path t stk acc (EndTag n # ts) = element_path t (tree_step stk (EndTag n)) acc ts"

fun balanced_from :: "string list \<Rightarrow> html_token list \<Rightarrow> bool" where
  "balanced_from ns [] \<longleftrightarrow> ns = []"
| "balanced_from ns (StartTag n as # ts) \<longleftrightarrow> balanced_from (if void_element n then ns else n # ns) ts"
| "balanced_from [] (EndTag n # ts) \<longleftrightarrow> False"
| "balanced_from (m # ns) (EndTag n # ts) \<longleftrightarrow> m = n \<and> balanced_from ns ts"

definition balanced_markup :: "string \<Rightarrow> bool" where
  "balanced_markup h \<longleftrightarrow> tok_closed h \<and> balanced_from [] (tag_tokens h)"

fun is_start :: "string \<Rightarrow> html_token \<Rightarrow> bool" where
  "is_start t (StartTag n as) \<longleftrightarrow> n = t"
| "is_start t (EndTag n) \<longleftrightarrow> False"

section \<open>Lemmas\<close>

lemma scan_closed_ne: "scan_closed s \<Longrightarrow> s \<noteq> []"
  by auto

lemma tag_tokens_append:
  "tok_closed a \<Longrightarrow> tag_tokens (a @ b) = tag_tokens a @ tag_tokens b"
proof (induction a rule: tag_tokens.induct)
  case (1 h)
  note IH = "1.IH" and cl = "1.prems"
  show ?case
  proof (cases "dropWhile (\<lambda>c. c \<noteq> CHR ''<'') h")
    case Nil
    then have "dropWhile (\<lambda>c. c \<noteq> CHR ''<'') (h @ b) = dropWhile (\<lambda>c. c \<noteq> CHR ''<'') b"
      by (intro dropWhile_append2) simp
    with Nil show ?thesis
      by (simp add: tag_tokens.simps [of "h @ b"] tag_tokens.simps [of h] tag_tokens.simps [of b] del: dropWhile_eq_Nil_conv)
  next
    case (Cons x r)
    note hr = this
    note a = dropWhile_append_Cons [OF hr, of b]
    show ?thesis
    proof (cases r)
      case Nil
      with hr cl show ?thesis by (simp add: tok_closed.simps)
    next
      case (Cons c r')
      note rc = this
      show ?thesis
      proof (cases "is_ascii_alpha c")
        case True
        with hr rc cl have s1: "scan_closed (dropWhile tag_name_char r)"
          and t1: "tok_closed (snd (attrs_scan (dropWhile tag_name_char r)))"
          by (simp_all add: tok_closed.simps)
        obtain y ys where dy: "dropWhile tag_name_char r = y # ys"
          using scan_closed_ne [OF s1] by (cases "dropWhile tag_name_char r") auto
        note a2 = dropWhile_append_Cons [OF dy, of b]
        have sc: "attrs_scan (dropWhile tag_name_char (r @ b)) =
            (fst (attrs_scan (dropWhile tag_name_char r)), snd (attrs_scan (dropWhile tag_name_char r)) @ b)"
          using attrs_scan_append [OF s1, of b] a2 dy by simp
        from IH(1) [OF hr rc True t1] True hr rc a a2 sc show ?thesis
          by (simp add: tag_tokens.simps [of "h @ b"] tag_tokens.simps [of h])
      next
        case na: False
        show ?thesis
        proof (cases "c = CHR ''/''")
          case sl: True
          with hr rc cl na have r': "r' \<noteq> []" by (simp add: tok_closed.simps)
          show ?thesis
          proof (cases "is_ascii_alpha (hd r')")
            case True
            with hr rc cl na sl r' have s1: "scan_closed (dropWhile tag_name_char r')"
              and t1: "tok_closed (snd (attrs_scan (dropWhile tag_name_char r')))"
              by (simp_all add: tok_closed.simps)
            obtain y ys where dy: "dropWhile tag_name_char r' = y # ys"
              using scan_closed_ne [OF s1] by (cases "dropWhile tag_name_char r'") auto
            note a2 = dropWhile_append_Cons [OF dy, of b]
            have sc: "attrs_scan (dropWhile tag_name_char (r' @ b)) =
                (fst (attrs_scan (dropWhile tag_name_char r')), snd (attrs_scan (dropWhile tag_name_char r')) @ b)"
              using attrs_scan_append [OF s1, of b] a2 dy by simp
            have hd': "hd (r' @ b) = hd r'" using r' by simp
            from IH(2) [OF hr rc na] True sl r' hr rc a a2 sc hd' na t1 show ?thesis
              by (simp add: tag_tokens.simps [of "h @ b"] tag_tokens.simps [of h])
          next
            case False
            with hr rc cl na sl r' have t1: "tok_closed r" by (simp add: tok_closed.simps)
            have hd': "hd (r' @ b) = hd r'" using r' by simp
            from IH(3) [OF hr rc na] False sl r' hr rc a hd' na t1 show ?thesis
              by (simp add: tag_tokens.simps [of "h @ b"] tag_tokens.simps [of h])
          qed
        next
          case nsl: False
          with hr rc cl na have t1: "tok_closed r" by (simp add: tok_closed.simps)
          from IH(3) [OF hr rc na] nsl hr rc a na t1 show ?thesis
            by (simp add: tag_tokens.simps [of "h @ b"] tag_tokens.simps [of h])
        qed
      qed
    qed
  qed
qed

lemma tag_tokens_tag:
  assumes "CHR ''<'' \<notin> set t" "is_ascii_alpha c" "list_all tag_name_char ns"
    and "u \<noteq> []" "\<not> tag_name_char (hd u)" "attrs_scan u = (as, rest)"
  shows "tag_tokens (t @ CHR ''<'' # c # ns @ u) = StartTag (map ascii_lower (c # ns)) as # tag_tokens rest"
proof -
  have dw: "dropWhile (\<lambda>x. x \<noteq> CHR ''<'') (t @ CHR ''<'' # c # ns @ u) = CHR ''<'' # c # ns @ u"
    using assms(1) by (induction t) auto
  have c: "tag_name_char c"
    using assms(2) by (auto simp: is_ascii_alpha_def tag_name_char_def is_html_ws_def)
  obtain x u' where u: "u = x # u'" using assms(4) by (cases u) auto
  have tw: "takeWhile tag_name_char (c # ns @ u) = c # ns"
    and dwt: "dropWhile tag_name_char (c # ns @ u) = u"
    using c assms(3,5) u by (simp_all add: takeWhile_append2 dropWhile_append2 list_all_iff)
  show ?thesis
    by (subst tag_tokens.simps) (simp only: dw tw dwt assms(2,6) list.case if_True prod.sel)
qed

lemma element_path_append:
  "element_path t stk acc (xs @ ys) = element_path t (foldl tree_step stk xs) (element_path t stk acc xs) ys"
proof (induction xs arbitrary: stk acc)
  case (Cons x xs)
  then show ?case by (cases x) simp_all
qed simp

lemma element_path_no_start: "\<not> list_ex (is_start t) ys \<Longrightarrow> element_path t stk acc ys = acc"
proof (induction ys arbitrary: stk)
  case (Cons y ys)
  then show ?case by (cases y) simp_all
qed simp

lemma element_path_last:
  "\<not> list_ex (is_start t) ys \<Longrightarrow>
     element_path t stk acc (xs @ StartTag t as # ys) = Some ((t, as) # foldl tree_step stk xs)"
  by (simp add: element_path_append element_path_no_start)

lemma balanced_from_run:
  "balanced_from (map fst pre) ts \<Longrightarrow> foldl tree_step (pre @ stk) ts = stk"
proof (induction ts arbitrary: pre)
  case Nil
  then show ?case by simp
next
  case (Cons x ts)
  show ?case
  proof (cases x)
    case (StartTag n as)
    show ?thesis
    proof (cases "void_element n")
      case True
      with Cons StartTag show ?thesis by simp
    next
      case False
      with Cons.prems StartTag Cons.IH [of "(n, as) # pre"] show ?thesis by simp
    qed
  next
    case (EndTag n)
    with Cons.prems obtain a pre' where pre: "pre = (n, a) # pre'" and b: "balanced_from (map fst pre') ts"
      by (cases pre) auto
    from Cons.IH [OF b] EndTag pre show ?thesis by simp
  qed
qed

lemma balanced_markup_run:
  "balanced_markup h \<Longrightarrow> foldl tree_step stk (tag_tokens h) = stk"
  using balanced_from_run [of "[]"] by (simp add: balanced_markup_def)

end
