(* ===== verification/Render.thy ===== *)
theory Render
  imports Mappers Tree_Builder
begin

text \<open>
  The two renderers of \<open>src/tvmaze.js\<close> and the page they write to.
  \<^item> \<open>dom\<close>: the parts of the document the script touches: the children of
    \<open>#showsList\<close> and \<open>#episodesList\<close>, whether \<open>#episodesArea\<close> is shown, and the
    value of the input \<open>#searchForm-term\<close>. An element is kept as the markup it was
    created from (\<open>$(markup)\<close>).
  \<^item> \<open>show_markup\<close>, \<open>episode_markup\<close>: the template literals of lines 41--56 and 104,
    character for character (\<open>nl\<close> is the line break of the source).
  \<^item> \<open>populateShows\<close>, \<open>populateEpisodes\<close>: lines 36--60 and 100--109, the loop of
    \<open>append\<close> calls kept as a loop (\<open>append_all\<close>).
  \<^item> \<open>start_tags\<close>: the start tags of a fragment in document order, through the
    tokenizer of theory \<open>Html\<close> (attribute values are skipped as the browser skips
    them, so a \<open><\<close> inside a value starts no tag); \<open>root_start_tag\<close>,
    \<open>find_start_tag\<close> (the first of duplicated attributes wins, \<open>attr_value\<close>) and
    \<open>tag_text\<close> (the text after a start tag) read them. Statements about the values of
    attributes assume \<open>attr_safe\<close> text, on which the browser's reading coincides.
  \<^item> \<open>closest_show_data\<close>: \<open>$(evt.target).closest(".Show").data("show-id")\<close> for a
    click on the Episodes button of a card (line 112): the path from the button to the
    card's root in the tree the builder of theory \<open>Tree_Builder\<close> makes of the card's
    markup, its first element whose class list holds \<open>Show\<close>, and that element's
    \<open>data-show-id\<close> through jQuery's \<open>.data\<close> conversion.
  \<^item> \<open>plain_card\<close>: the show data on which the card keeps the template's structure (no
    double quote in the image URL and the name, balanced markup in the name and the
    summary); the read-back theorems hold on them, and the injection theorems show what
    happens off them.
  \<^item> \<open>parse_episode_line\<close>: the user's reading of an episode line (spec, section 4.4):
    the season and number at the end of \<open>name(season s, episode n)\<close>, read from the
    right so that the name may hold anything but \<open><\<close>.
\<close>

record dom =
  showsList :: "html list"
  episodesList :: "html list"
  episodesArea_visible :: bool
  searchForm_term :: string

text \<open>The page as \<open>index.html\<close> loads it (the markup is not part of \<open>src/\<close>; the
  spec, sections 4.4 and 6: both lists empty, the episode region hidden).\<close>

definition init_dom :: dom where
  "init_dom = \<lparr>showsList = [], episodesList = [], episodesArea_visible = False, searchForm_term = []\<rparr>"

definition nl :: string where
  "nl = [CHR 0x0A]"

definition show_markup :: "show_rec \<Rightarrow> html" where
  "show_markup sh = concat
     [''<div data-show-id=\"'', js_to_string (show_id sh), ''\" class=\"Show col-md-12 col-lg-6 mb-4\">'', nl,
      ''         <div class=\"media\">'', nl,
      ''           <img'', nl,
      ''              src=\"'', js_to_string (show_image sh), ''\"'', nl,
      ''              alt=\"'', js_to_string (show_name sh), ''\"'', nl,
      ''              class=\"w-25 me-3\">'', nl,
      ''           <div class=\"media-body\">'', nl,
      ''             <h5 class=\"text-primary\">'', js_to_string (show_name sh), ''</h5>'', nl,
      ''             <div><small>'', js_to_string (show_summary sh), ''</small></div>'', nl,
      ''             <button class=\"btn btn-outline-light btn-sm Show-getEpisodes\"> '', nl,
      ''               Episodes'', nl,
      ''             </button>'', nl,
      ''           </div>'', nl,
      ''         </div>'', nl,
      ''       </div>'', nl,
      ''      '']"

definition episode_markup :: "episode_rec \<Rightarrow> html" where
  "episode_markup e = concat
     [''<li>'', js_to_string (ep_name e), ''(season '', js_to_string (ep_season e),
      '', episode '', js_to_string (ep_number e), '')</li>'']"

text \<open>\<open>for (let x of xs) { list.append($(mk x)) }\<close> on an emptied list.\<close>

fun append_all :: "('a \<Rightarrow> html) \<Rightarrow> html list \<Rightarrow> 'a list \<Rightarrow> html list" where
  "append_all mk acc [] = acc"
| "append_all mk acc (x # xs) = append_all mk (acc @ [mk x]) xs"

definition populateShows :: "show_rec list \<Rightarrow> dom \<Rightarrow> dom" where
  "populateShows shows d = d\<lparr>showsList := append_all show_markup [] shows\<rparr>"

definition populateEpisodes :: "episode_rec list \<Rightarrow> dom \<Rightarrow> dom" where
  "populateEpisodes episodes d =
     d\<lparr>episodesList := append_all episode_markup [] episodes, episodesArea_visible := True\<rparr>"

section \<open>Reading attributes back\<close>

text \<open>The start tags of a fragment in document order, each with its attributes and the
  input after it: the tokenizer's data state (text up to \<open><\<close>), tag open state (a
  letter starts a tag; \<open></\<close> and a letter an end tag, whose attributes are read and
  dropped; any other \<open><\<close> is text).\<close>

function start_tags :: "html \<Rightarrow> (string \<times> (string \<times> string) list \<times> html) list" where
  "start_tags h =
     (case dropWhile (\<lambda>c. c \<noteq> CHR ''<'') h of
        [] \<Rightarrow> []
      | _ # r \<Rightarrow>
          (case r of
             [] \<Rightarrow> []
           | c # r' \<Rightarrow>
               if is_ascii_alpha c then
                 (map ascii_lower (takeWhile tag_name_char r), fst (attrs_scan (dropWhile tag_name_char r)),
                  snd (attrs_scan (dropWhile tag_name_char r)))
                 # start_tags (snd (attrs_scan (dropWhile tag_name_char r)))
               else if c = CHR ''/'' \<and> r' \<noteq> [] \<and> is_ascii_alpha (hd r') then
                 start_tags (snd (attrs_scan (dropWhile tag_name_char r')))
               else start_tags r))"
  by pat_completeness auto
termination
  by (relation "measure length")
     (auto dest!: arg_cong [where f = length] simp: length_dropWhile_eq
        intro: le_less_trans [OF length_attrs_scan_rest] le_less_trans [OF length_attrs_scan_rest le_less_trans])

declare start_tags.simps [simp del]

definition root_start_tag :: "html \<Rightarrow> (string \<times> (string \<times> string) list) option" where
  "root_start_tag h =
     (case dropWhile is_html_ws h of
        c # r \<Rightarrow> if c = CHR ''<'' then Some (map ascii_lower (takeWhile tag_name_char r), tag_attrs (dropWhile tag_name_char r))
                 else None
      | [] \<Rightarrow> None)"

definition find_start_tag :: "string \<Rightarrow> html \<Rightarrow> (string \<times> string) list option" where
  "find_start_tag t h = map_option (\<lambda>(_, attrs, _). attrs) (find (\<lambda>(n, _, _). n = t) (start_tags h))"

text \<open>The text right after the first start tag \<open>t\<close>, up to the next \<open><\<close>: what the
  element displays when it holds text only.\<close>

definition tag_text :: "string \<Rightarrow> html \<Rightarrow> string option" where
  "tag_text t h =
     map_option (\<lambda>(_, _, rest). takeWhile (\<lambda>c. c \<noteq> CHR ''<'') rest) (find (\<lambda>(n, _, _). n = t) (start_tags h))"

definition attr_value :: "(string \<times> string) list \<Rightarrow> string \<Rightarrow> string option" where
  "attr_value attrs k = map_of attrs k"

text \<open>\<open>.closest(".Show")\<close> tests an element's class list.\<close>

definition has_class :: "string \<Rightarrow> element \<Rightarrow> bool" where
  "has_class c e \<longleftrightarrow> c \<in> set (split_ws (case attr_value (snd e) ''class'' of Some v \<Rightarrow> v | None \<Rightarrow> []))"

text \<open>Line 112 for a click on the card's Episodes button: \<open>evt.target\<close> is the last
  \<open>button\<close> of the card's markup (the template's, which follows everything the data
  writes), \<open>.closest(".Show")\<close> the first of it and its ancestors, in the tree the
  browser builds from the markup, whose class list holds \<open>Show\<close>, and \<open>.data("show-id")\<close>
  reads that element's \<open>data-show-id\<close> through jQuery's conversion; an empty selection
  gives \<open>undefined\<close>. Each card is parsed on its own by \<open>$(markup)\<close>, so the ancestors
  within the card's markup are all that can match.\<close>

definition closest_show_data :: "json_parser \<Rightarrow> html \<Rightarrow> jsval" where
  "closest_show_data jp elem =
     (case element_path ''button'' [] None (tag_tokens elem) of
        None \<Rightarrow> JUndefined
      | Some path \<Rightarrow>
          (case find (has_class ''Show'') path of
             Some e \<Rightarrow> jq_data jp (attr_value (snd e) ''data-show-id'')
           | None \<Rightarrow> JUndefined))"

text \<open>A card whose data keeps the template's structure: the image URL and the name,
  written into attributes, hold no double quote, and the name and the summary, written
  into the heading and the \<open>small\<close> element, are balanced markup (plain text, or markup
  such as the HTML summaries TVMaze sends).\<close>

definition plain_card :: "show_rec \<Rightarrow> bool" where
  "plain_card sh \<longleftrightarrow>
     CHR 0x22 \<notin> set (js_to_string (show_image sh)) \<and> CHR 0x22 \<notin> set (js_to_string (show_name sh))
     \<and> balanced_markup (js_to_string (show_name sh)) \<and> balanced_markup (js_to_string (show_summary sh))"

text \<open>A show whose name carries a double quote (used by the counterexample below).\<close>

definition quote_name_show :: show_rec where
  "quote_name_show =
     \<lparr>show_id = JNum 1, show_name = JStr (''x'' @ [CHR 0x22] @ '' onerror='' @ [CHR 0x22] @ ''alert(1)''),
      show_summary = JNull, show_image = JStr missing_url_image\<rparr>"

text \<open>Reading an episode line back (spec, section 4.4: the line is
  \<open>name(season s, episode n)\<close>): season and number are the last two integers of the
  line, read from its end, so that no text in the name can be taken for them.\<close>

definition is_num_char :: "char \<Rightarrow> bool" where
  "is_num_char c \<longleftrightarrow> c = CHR ''-'' \<or> (48 \<le> (of_char c :: nat) \<and> (of_char c :: nat) \<le> 57)"

definition parse_episode_line :: "string \<Rightarrow> (int \<times> int) option" where
  "parse_episode_line t =
     (case rev t of
        [] \<Rightarrow> None
      | c # r \<Rightarrow>
          if c \<noteq> CHR '')'' \<or> take 10 (dropWhile is_num_char r) \<noteq> rev '', episode ''
             \<or> take 8 (dropWhile is_num_char (drop 10 (dropWhile is_num_char r))) \<noteq> rev ''(season ''
          then None
          else
            (case (parse_dec_int (rev (takeWhile is_num_char (drop 10 (dropWhile is_num_char r)))),
                   parse_dec_int (rev (takeWhile is_num_char r))) of
               (Some a, Some b) \<Rightarrow> Some (a, b)
             | _ \<Rightarrow> None))"

text \<open>The parts of a card the lemmas name: the template after the heading's text,
  the start tags up to the heading, and the Episodes button's attributes.\<close>

abbreviation card_tail :: "string \<Rightarrow> html" where
  "card_tail S \<equiv> concat
     [nl, ''             <div><small>'', S, ''</small></div>'', nl,
      ''             <button class=\"btn btn-outline-light btn-sm Show-getEpisodes\"> '', nl,
      ''               Episodes'', nl, ''             </button>'', nl, ''           </div>'', nl,
      ''         </div>'', nl, ''       </div>'', nl, ''      '']"

abbreviation card_img_text :: "show_rec \<Rightarrow> html" where
  "card_img_text sh \<equiv>
     nl @ ''              src=\"'' @ js_to_string (show_image sh) @ ''\"'' @ nl
     @ ''              alt=\"'' @ js_to_string (show_name sh) @ ''\"'' @ nl @ ''              class=\"w-25 me-3\">''
     @ nl @ ''           <div class=\"media-body\">'' @ nl
     @ ''             <h5 class=\"text-primary\">'' @ js_to_string (show_name sh) @ ''</h5>''
     @ card_tail (js_to_string (show_summary sh))"

abbreviation card_head :: "show_rec \<Rightarrow> html_token list" where
  "card_head sh \<equiv>
     [StartTag ''div'' [(''data-show-id'', js_to_string (show_id sh)), (''class'', ''Show col-md-12 col-lg-6 mb-4'')],
      StartTag ''div'' [(''class'', ''media'')],
      StartTag ''img'' [(''src'', js_to_string (show_image sh)), (''alt'', js_to_string (show_name sh)),
                        (''class'', ''w-25 me-3'')],
      StartTag ''div'' [(''class'', ''media-body'')], StartTag ''h5'' [(''class'', ''text-primary'')]]"

abbreviation button_attrs :: "(string \<times> string) list" where
  "button_attrs \<equiv> [(''class'', ''btn btn-outline-light btn-sm Show-getEpisodes'')]"

section \<open>Lemmas\<close>

subsection \<open>The render loops\<close>

text \<open>The loop of \<open>append\<close> calls builds the same list as mapping the template.\<close>

lemma append_all_eq: "append_all mk acc xs = acc @ map mk xs"
  by (induction xs arbitrary: acc) auto

lemma populateShows_fields [simp]:
  "showsList (populateShows shows d) = map show_markup shows"
  "episodesList (populateShows shows d) = episodesList d"
  "episodesArea_visible (populateShows shows d) = episodesArea_visible d"
  "searchForm_term (populateShows shows d) = searchForm_term d"
  by (simp_all add: populateShows_def append_all_eq)

lemma populateEpisodes_fields [simp]:
  "episodesList (populateEpisodes eps d) = map episode_markup eps"
  "episodesArea_visible (populateEpisodes eps d)"
  "showsList (populateEpisodes eps d) = showsList d"
  "searchForm_term (populateEpisodes eps d) = searchForm_term d"
  by (simp_all add: populateEpisodes_def append_all_eq)

subsection \<open>The attribute tokenizer\<close>

lemma split_ws_Show:
  "split_ws ''Show col-md-12 col-lg-6 mb-4'' = [''Show'', ''col-md-12'', ''col-lg-6'', ''mb-4'']"
  by (simp add: split_ws.simps is_html_ws_def)

subsection \<open>The card's root element\<close>

lemma root_start_tag_show_markup:
  assumes "CHR 0x22 \<notin> set (js_to_string (show_id sh))"
  shows "root_start_tag (show_markup sh) =
    Some (''div'', [(''data-show-id'', js_to_string (show_id sh)), (''class'', ''Show col-md-12 col-lg-6 mb-4'')])"
proof -
  define X where "X = js_to_string (show_id sh)"
  define C where "C = ''Show col-md-12 col-lg-6 mb-4''"
  obtain T where T: "show_markup sh =
      ''<div data-show-id='' @ CHR 0x22 # X @ CHR 0x22 # '' class='' @ CHR 0x22 # C @ CHR 0x22 # ''>'' @ T"
    by (simp add: show_markup_def X_def C_def)
  have a2: "tag_attrs ('' class='' @ CHR 0x22 # C @ CHR 0x22 # ''>'' @ T) = [(''class'', C)]"
    using tag_attrs_quoted [of "'' ''" "CHR ''c''" "''lass''" "CHR 0x22" C "''>'' @ T"]
      tag_attrs_close [of "[]" T]
    by (simp add: is_html_ws_def attr_name_char_def C_def)
  have a1: "tag_attrs ('' data-show-id='' @ CHR 0x22 # X @ CHR 0x22 # '' class='' @ CHR 0x22 # C @ CHR 0x22 # ''>'' @ T)
     = [(''data-show-id'', X), (''class'', C)]"
    using tag_attrs_quoted [of "'' ''" "CHR ''d''" "''ata-show-id''" "CHR 0x22" X
        "'' class='' @ CHR 0x22 # C @ CHR 0x22 # ''>'' @ T"] a2 assms
    by (simp add: is_html_ws_def attr_name_char_def X_def)
  show ?thesis
    using a1 by (simp add: T root_start_tag_def is_html_ws_def tag_name_char_def X_def C_def)
qed

lemma js_to_string_jq_data_conv:
  "\<not> looks_like_json s \<Longrightarrow> js_to_string (jq_data_conv jp s) = s"
  by (auto simp: jq_data_conv_def split: option.splits)

subsection \<open>The start tags of a card\<close>

lemma start_tags_tag:
  assumes "CHR ''<'' \<notin> set t" "is_ascii_alpha c" "list_all tag_name_char ns"
    and "u \<noteq> []" "\<not> tag_name_char (hd u)" "attrs_scan u = (as, rest)"
  shows "start_tags (t @ CHR ''<'' # c # ns @ u) = (map ascii_lower (c # ns), as, rest) # start_tags rest"
proof -
  have dw: "dropWhile (\<lambda>x. x \<noteq> CHR ''<'') (t @ CHR ''<'' # c # ns @ u) = CHR ''<'' # c # ns @ u"
    using assms(1) by (induction t) auto
  have c: "tag_name_char c"
    using assms(2) by (auto simp: is_ascii_alpha_def tag_name_char_def is_html_ws_def)
  obtain x u' where u: "u = x # u'" using assms(4) by (cases u) auto
  have tw: "takeWhile tag_name_char (c # ns @ u) = c # ns"
    and dwt: "dropWhile tag_name_char (c # ns @ u) = u"
    using c assms(3,5) u by (simp_all add: takeWhile_append2 dropWhile_append2 list_all_iff)
  show ?thesis
    by (subst start_tags.simps) (simp only: dw tw dwt assms(2,6) list.case if_True prod.sel)
qed

lemma attrs_scan_class:
  assumes "list_all is_html_ws ws" and "CHR 0x22 \<notin> set v"
  shows "attrs_scan (ws @ ''class='' @ CHR 0x22 # v @ CHR 0x22 # CHR ''>'' # rest) = ([(''class'', v)], rest)"
  using attrs_scan_quoted [of ws "CHR ''c''" "''lass''" "CHR 0x22" v "CHR ''>'' # rest"] assms
    attrs_scan_close [of "[]" rest]
  by (simp add: attr_name_char_def is_html_ws_def)

lemma tag_open:
  assumes "CHR ''<'' \<notin> set t" "is_ascii_alpha c" "list_all tag_name_char ns"
    and "u \<noteq> []" "\<not> tag_name_char (hd u)" "attrs_scan u = (as, rest)"
  shows "start_tags (t @ CHR ''<'' # c # ns @ u) = (map ascii_lower (c # ns), as, rest) # start_tags rest
    \<and> tag_tokens (t @ CHR ''<'' # c # ns @ u) = StartTag (map ascii_lower (c # ns)) as # tag_tokens rest"
  using start_tags_tag [OF assms] tag_tokens_tag [OF assms] by simp

text \<open>The card up to its image: the root \<open>div\<close>, the \<open>media\<close> \<open>div\<close> and the \<open>img\<close>,
  whatever attributes the image's text yields.\<close>

lemma card_scan_img:
  assumes "CHR 0x22 \<notin> set (js_to_string (show_id sh))" and "attrs_scan (card_img_text sh) = (as, r3)"
  shows "(\<exists>r1 r2. start_tags (show_markup sh) =
     (''div'', [(''data-show-id'', js_to_string (show_id sh)), (''class'', ''Show col-md-12 col-lg-6 mb-4'')], r1)
     # (''div'', [(''class'', ''media'')], r2) # (''img'', as, r3) # start_tags r3)
   \<and> tag_tokens (show_markup sh) =
     StartTag ''div'' [(''data-show-id'', js_to_string (show_id sh)), (''class'', ''Show col-md-12 col-lg-6 mb-4'')]
     # StartTag ''div'' [(''class'', ''media'')] # StartTag ''img'' as # tag_tokens r3"
proof -
  define X where "X = js_to_string (show_id sh)"
  define r2 where "r2 = nl @ ''           <img'' @ card_img_text sh"
  define r1 where "r1 = nl @ ''         <div class=\"media\">'' @ r2"
  have M: "show_markup sh = ''<div data-show-id=\"'' @ X @ ''\" class=\"Show col-md-12 col-lg-6 mb-4\">'' @ r1"
    by (simp add: show_markup_def X_def r1_def r2_def)
  have a1: "attrs_scan ('' data-show-id=\"'' @ X @ ''\" class=\"Show col-md-12 col-lg-6 mb-4\">'' @ r1)
      = ([(''data-show-id'', X), (''class'', ''Show col-md-12 col-lg-6 mb-4'')], r1)"
    using attrs_scan_quoted [of "'' ''" "CHR ''d''" "''ata-show-id''" "CHR 0x22" X
        "'' class=\"Show col-md-12 col-lg-6 mb-4\">'' @ r1"] assms(1)
      attrs_scan_class [of "'' ''" "''Show col-md-12 col-lg-6 mb-4''" r1]
    by (simp add: is_html_ws_def attr_name_char_def X_def)
  have t1: "start_tags (show_markup sh) =
      (''div'', [(''data-show-id'', X), (''class'', ''Show col-md-12 col-lg-6 mb-4'')], r1) # start_tags r1
    \<and> tag_tokens (show_markup sh) =
      StartTag ''div'' [(''data-show-id'', X), (''class'', ''Show col-md-12 col-lg-6 mb-4'')] # tag_tokens r1"
    using tag_open [of "[]" "CHR ''d''" "''iv''"
        "'' data-show-id=\"'' @ X @ ''\" class=\"Show col-md-12 col-lg-6 mb-4\">'' @ r1"] a1
    by (simp add: M is_ascii_alpha_def tag_name_char_def is_html_ws_def)
  have t2: "start_tags r1 = (''div'', [(''class'', ''media'')], r2) # start_tags r2
    \<and> tag_tokens r1 = StartTag ''div'' [(''class'', ''media'')] # tag_tokens r2"
    using tag_open [of "nl @ ''         ''" "CHR ''d''" "''iv''" "'' class=\"media\">'' @ r2"]
      attrs_scan_class [of "'' ''" "''media''" r2]
    by (simp add: r1_def nl_def is_ascii_alpha_def tag_name_char_def is_html_ws_def)
  have t3: "start_tags r2 = (''img'', as, r3) # start_tags r3 \<and> tag_tokens r2 = StartTag ''img'' as # tag_tokens r3"
    using tag_open [of "nl @ ''           ''" "CHR ''i''" "''mg''" "card_img_text sh"] assms(2)
    by (simp add: r2_def nl_def is_ascii_alpha_def tag_name_char_def is_html_ws_def)
  show ?thesis
    unfolding X_def [symmetric]
  proof
    show "\<exists>r1 r2. start_tags (show_markup sh) =
     (''div'', [(''data-show-id'', X), (''class'', ''Show col-md-12 col-lg-6 mb-4'')], r1)
     # (''div'', [(''class'', ''media'')], r2) # (''img'', as, r3) # start_tags r3"
      by (rule exI [of _ r1], rule exI [of _ r2],
          simp only: t1 [THEN conjunct1] t2 [THEN conjunct1] t3 [THEN conjunct1])
    show "tag_tokens (show_markup sh) =
     StartTag ''div'' [(''data-show-id'', X), (''class'', ''Show col-md-12 col-lg-6 mb-4'')]
     # StartTag ''div'' [(''class'', ''media'')] # StartTag ''img'' as # tag_tokens r3"
      by (simp only: t1 [THEN conjunct2] t2 [THEN conjunct2] t3 [THEN conjunct2])
  qed
qed

lemma card_scan:
  assumes "CHR 0x22 \<notin> set (js_to_string (show_id sh))" "CHR 0x22 \<notin> set (js_to_string (show_image sh))"
    and "CHR 0x22 \<notin> set (js_to_string (show_name sh))"
  shows "(\<exists>r1 r2 r3 r4 r5. start_tags (show_markup sh) =
     (''div'', [(''data-show-id'', js_to_string (show_id sh)), (''class'', ''Show col-md-12 col-lg-6 mb-4'')], r1)
     # (''div'', [(''class'', ''media'')], r2)
     # (''img'', [(''src'', js_to_string (show_image sh)), (''alt'', js_to_string (show_name sh)),
                  (''class'', ''w-25 me-3'')], r3)
     # (''div'', [(''class'', ''media-body'')], r4)
     # (''h5'', [(''class'', ''text-primary'')], js_to_string (show_name sh) @ ''</h5>'' @ r5)
     # start_tags (js_to_string (show_name sh) @ ''</h5>'' @ r5))
   \<and> tag_tokens (show_markup sh) =
       card_head sh @ tag_tokens (js_to_string (show_name sh) @ ''</h5>'' @ card_tail (js_to_string (show_summary sh)))"
proof -
  define I where "I = js_to_string (show_image sh)"
  define N where "N = js_to_string (show_name sh)"
  define r5 where "r5 = card_tail (js_to_string (show_summary sh))"
  define r4 where "r4 = nl @ ''             <h5 class=\"text-primary\">'' @ N @ ''</h5>'' @ r5"
  define r3 where "r3 = nl @ ''           <div class=\"media-body\">'' @ r4"
  note q = assms(2,3) [folded I_def N_def]
  have a3: "attrs_scan (nl @ ''              src=\"'' @ I @ ''\"'' @ nl
      @ ''              alt=\"'' @ N @ ''\"'' @ nl @ ''              class=\"w-25 me-3\">'' @ r3)
      = ([(''src'', I), (''alt'', N), (''class'', ''w-25 me-3'')], r3)"
    using attrs_scan_quoted [of "nl @ ''              ''" "CHR ''s''" "''rc''" "CHR 0x22" I
        "nl @ ''              alt=\"'' @ N @ ''\"'' @ nl @ ''              class=\"w-25 me-3\">'' @ r3"]
      attrs_scan_quoted [of "nl @ ''              ''" "CHR ''a''" "''lt''" "CHR 0x22" N
        "nl @ ''              class=\"w-25 me-3\">'' @ r3"]
      attrs_scan_class [of "nl @ ''              ''" "''w-25 me-3''" r3] q
    by (simp add: nl_def is_html_ws_def attr_name_char_def)
  have "card_img_text sh = nl @ ''              src=\"'' @ I @ ''\"'' @ nl
      @ ''              alt=\"'' @ N @ ''\"'' @ nl @ ''              class=\"w-25 me-3\">'' @ r3"
    by (simp add: I_def N_def r3_def r4_def r5_def)
  with a3 have ci: "attrs_scan (card_img_text sh) = ([(''src'', I), (''alt'', N), (''class'', ''w-25 me-3'')], r3)"
    by simp
  note c = card_scan_img [OF assms(1) ci]
  have t4: "start_tags r3 = (''div'', [(''class'', ''media-body'')], r4) # start_tags r4
    \<and> tag_tokens r3 = StartTag ''div'' [(''class'', ''media-body'')] # tag_tokens r4"
    using tag_open [of "nl @ ''           ''" "CHR ''d''" "''iv''" "'' class=\"media-body\">'' @ r4"]
      attrs_scan_class [of "'' ''" "''media-body''" r4]
    by (simp add: r3_def nl_def is_ascii_alpha_def tag_name_char_def is_html_ws_def)
  have t5: "start_tags r4 = (''h5'', [(''class'', ''text-primary'')], N @ ''</h5>'' @ r5) # start_tags (N @ ''</h5>'' @ r5)
    \<and> tag_tokens r4 = StartTag ''h5'' [(''class'', ''text-primary'')] # tag_tokens (N @ ''</h5>'' @ r5)"
    using tag_open [of "nl @ ''             ''" "CHR ''h''" "''5''" "'' class=\"text-primary\">'' @ N @ ''</h5>'' @ r5"]
      attrs_scan_class [of "'' ''" "''text-primary''" "N @ ''</h5>'' @ r5"]
    by (simp add: r4_def nl_def is_ascii_alpha_def tag_name_char_def is_html_ws_def)
  from c obtain r1 r2 where st: "start_tags (show_markup sh) =
     (''div'', [(''data-show-id'', js_to_string (show_id sh)), (''class'', ''Show col-md-12 col-lg-6 mb-4'')], r1)
     # (''div'', [(''class'', ''media'')], r2)
     # (''img'', [(''src'', I), (''alt'', N), (''class'', ''w-25 me-3'')], r3) # start_tags r3"
    by blast
  show ?thesis
    unfolding I_def [symmetric] N_def [symmetric] r5_def [symmetric]
  proof
    show "\<exists>r1 r2 r3 r4 r5. start_tags (show_markup sh) =
     (''div'', [(''data-show-id'', js_to_string (show_id sh)), (''class'', ''Show col-md-12 col-lg-6 mb-4'')], r1)
     # (''div'', [(''class'', ''media'')], r2)
     # (''img'', [(''src'', I), (''alt'', N), (''class'', ''w-25 me-3'')], r3)
     # (''div'', [(''class'', ''media-body'')], r4)
     # (''h5'', [(''class'', ''text-primary'')], N @ ''</h5>'' @ r5)
     # start_tags (N @ ''</h5>'' @ r5)"
      by (rule exI [of _ r1], rule exI [of _ r2], rule exI [of _ r3], rule exI [of _ r4], rule exI [of _ r5],
          simp only: st t4 [THEN conjunct1] t5 [THEN conjunct1])
    show "tag_tokens (show_markup sh) =
       [StartTag ''div'' [(''data-show-id'', js_to_string (show_id sh)), (''class'', ''Show col-md-12 col-lg-6 mb-4'')],
        StartTag ''div'' [(''class'', ''media'')],
        StartTag ''img'' [(''src'', I), (''alt'', N), (''class'', ''w-25 me-3'')],
        StartTag ''div'' [(''class'', ''media-body'')], StartTag ''h5'' [(''class'', ''text-primary'')]]
       @ tag_tokens (N @ ''</h5>'' @ r5)"
      by (simp only: c [THEN conjunct2] t4 [THEN conjunct2] t5 [THEN conjunct2] append_Cons append_Nil)
  qed
qed

lemma start_tags_show_markup:
  assumes "CHR 0x22 \<notin> set (js_to_string (show_id sh))" "CHR 0x22 \<notin> set (js_to_string (show_image sh))"
    and "CHR 0x22 \<notin> set (js_to_string (show_name sh))"
  shows "\<exists>r1 r2 r3 r4 r5. start_tags (show_markup sh) =
     (''div'', [(''data-show-id'', js_to_string (show_id sh)), (''class'', ''Show col-md-12 col-lg-6 mb-4'')], r1)
     # (''div'', [(''class'', ''media'')], r2)
     # (''img'', [(''src'', js_to_string (show_image sh)), (''alt'', js_to_string (show_name sh)),
                  (''class'', ''w-25 me-3'')], r3)
     # (''div'', [(''class'', ''media-body'')], r4)
     # (''h5'', [(''class'', ''text-primary'')], js_to_string (show_name sh) @ ''</h5>'' @ r5)
     # start_tags (js_to_string (show_name sh) @ ''</h5>'' @ r5)"
  using card_scan [OF assms] by (rule conjunct1)

lemma tag_tokens_show_markup:
  assumes "CHR 0x22 \<notin> set (js_to_string (show_id sh))" "CHR 0x22 \<notin> set (js_to_string (show_image sh))"
    and "CHR 0x22 \<notin> set (js_to_string (show_name sh))"
  shows "tag_tokens (show_markup sh) =
     card_head sh @ tag_tokens (js_to_string (show_name sh) @ ''</h5>'' @ card_tail (js_to_string (show_summary sh)))"
  using card_scan [OF assms] by (rule conjunct2)

subsection \<open>The tree of a card and the click's read-back\<close>

lemma tag_tokens_card_tail:
  assumes "tok_closed S"
  shows "tag_tokens (''</h5>'' @ card_tail S) =
     [EndTag ''h5'', StartTag ''div'' [], StartTag ''small'' []] @ tag_tokens S
     @ [EndTag ''small'', EndTag ''div'', StartTag ''button'' button_attrs, EndTag ''button'',
        EndTag ''div'', EndTag ''div'', EndTag ''div'']"
proof -
  define M where "M = ''</h5>'' @ nl @ ''             <div><small>''"
  define E where "E = concat [''</small></div>'', nl,
      ''             <button class=\"btn btn-outline-light btn-sm Show-getEpisodes\"> '', nl,
      ''               Episodes'', nl, ''             </button>'', nl, ''           </div>'', nl,
      ''         </div>'', nl, ''       </div>'', nl, ''      '']"
  have split: "''</h5>'' @ card_tail S = M @ (S @ E)" by (simp add: M_def E_def)
  have cM: "tok_closed M" unfolding M_def by code_simp
  have tM: "tag_tokens M = [EndTag ''h5'', StartTag ''div'' [], StartTag ''small'' []]"
    unfolding M_def by code_simp
  have tE: "tag_tokens E = [EndTag ''small'', EndTag ''div'', StartTag ''button'' button_attrs, EndTag ''button'',
        EndTag ''div'', EndTag ''div'', EndTag ''div'']"
    unfolding E_def by code_simp
  show ?thesis
    unfolding split
    by (simp only: tag_tokens_append [OF cM] tag_tokens_append [OF assms] tM tE append_assoc append_Cons append_Nil)
qed

text \<open>The Episodes button of a card and its ancestors, for any tokens \<open>ns\<close> of the
  name in the heading, when the summary is balanced.\<close>

lemma card_button_path:
  assumes "CHR 0x22 \<notin> set (js_to_string (show_id sh))" "CHR 0x22 \<notin> set (js_to_string (show_image sh))"
    and "CHR 0x22 \<notin> set (js_to_string (show_name sh))" "balanced_markup (js_to_string (show_summary sh))"
    and "tag_tokens (js_to_string (show_name sh) @ ''</h5>'' @ card_tail (js_to_string (show_summary sh)))
       = ns @ tag_tokens (''</h5>'' @ card_tail (js_to_string (show_summary sh)))"
  shows "element_path ''button'' [] None (tag_tokens (show_markup sh)) =
     Some ((''button'', button_attrs) # foldl tree_step [] (card_head sh @ ns
       @ [EndTag ''h5'', StartTag ''div'' [], StartTag ''small'' [], EndTag ''small'', EndTag ''div'']))"
proof -
  have c: "tok_closed (js_to_string (show_summary sh))" using assms(4) by (simp add: balanced_markup_def)
  have "tag_tokens (show_markup sh) =
     (card_head sh @ ns @ [EndTag ''h5'', StartTag ''div'' [], StartTag ''small'' []]
      @ tag_tokens (js_to_string (show_summary sh)) @ [EndTag ''small'', EndTag ''div''])
     @ StartTag ''button'' button_attrs # [EndTag ''button'', EndTag ''div'', EndTag ''div'', EndTag ''div'']"
    using tag_tokens_show_markup [OF assms(1-3)] assms(5) tag_tokens_card_tail [OF c] by simp
  then show ?thesis
    using balanced_markup_run [OF assms(4)]
    by (simp add: element_path_last del: append_Cons append_assoc)
qed

lemma card_classes:
  "\<not> has_class ''Show'' (''button'', button_attrs)"
  "\<not> has_class ''Show'' (''div'', [(''class'', ''media-body'')])"
  "\<not> has_class ''Show'' (''div'', [(''class'', ''media'')])"
  "has_class ''Show'' (''div'', [(''data-show-id'', X), (''class'', ''Show col-md-12 col-lg-6 mb-4'')])"
  by (code_simp, code_simp, code_simp) (simp add: has_class_def attr_value_def split_ws_Show)

text \<open>On a plain card the click reads the card's own \<open>data-show-id\<close>.\<close>

lemma closest_show_data_show_markup:
  assumes "CHR 0x22 \<notin> set (js_to_string (show_id sh))" and "plain_card sh"
  shows "closest_show_data jp (show_markup sh) = jq_data_conv jp (js_to_string (show_id sh))"
proof -
  note p = assms(2) [unfolded plain_card_def]
  have n: "tok_closed (js_to_string (show_name sh))" using p by (simp add: balanced_markup_def)
  have path: "element_path ''button'' [] None (tag_tokens (show_markup sh)) =
     Some ((''button'', button_attrs) # foldl tree_step [] (card_head sh @ tag_tokens (js_to_string (show_name sh))
       @ [EndTag ''h5'', StartTag ''div'' [], StartTag ''small'' [], EndTag ''small'', EndTag ''div'']))"
    using card_button_path [OF assms(1)] p tag_tokens_append [OF n] by simp
  have "foldl tree_step [] (card_head sh @ tag_tokens (js_to_string (show_name sh))
       @ [EndTag ''h5'', StartTag ''div'' [], StartTag ''small'' [], EndTag ''small'', EndTag ''div''])
     = [(''div'', [(''class'', ''media-body'')]), (''div'', [(''class'', ''media'')]),
        (''div'', [(''data-show-id'', js_to_string (show_id sh)), (''class'', ''Show col-md-12 col-lg-6 mb-4'')])]"
    using balanced_markup_run [of "js_to_string (show_name sh)"] p by (simp add: void_element_def)
  with path card_classes show ?thesis
    by (simp add: closest_show_data_def attr_value_def jq_data_def)
qed

lemma dec_int_unquoted:
  "list_all unquoted_char (dec_int i) \<and> dec_int i \<noteq> [] \<and> hd (dec_int i) \<noteq> CHR 0x22 \<and> hd (dec_int i) \<noteq> CHR 0x27"
proof -
  have c: "unquoted_char c \<and> c \<noteq> CHR 0x22 \<and> c \<noteq> CHR 0x27" if "c \<in> set (dec_int i)" for c
    using dec_int_char_cases [OF that] by (auto simp: unquoted_char_def is_html_ws_def)
  have ne: "dec_int i \<noteq> []"
    using parse_dec_int_dec_int [of i] by (auto simp: parse_dec_int_def)
  then have "hd (dec_int i) \<in> set (dec_int i)" by simp
  with c ne show ?thesis by (auto simp: list_all_iff)
qed

text \<open>A name that closes the heading and the card's three \<open>div\<close>s and opens a
  \<open>div\<close> of class \<open>Show\<close> makes the click read that element's id.\<close>

lemma closest_show_data_injected:
  assumes "js_to_string (show_name sh) = ''</h5></div></div></div><div class=Show data-show-id='' @ dec_int n @ ''>''"
    and "CHR 0x22 \<notin> set (js_to_string (show_id sh))" "CHR 0x22 \<notin> set (js_to_string (show_image sh))"
    and "balanced_markup (js_to_string (show_summary sh))"
  shows "closest_show_data jp (show_markup sh) = JNum n"
proof -
  define D where "D = dec_int n"
  define T where "T = ''</h5>'' @ card_tail (js_to_string (show_summary sh))"
  obtain q v where qv: "D = q # v" using dec_int_unquoted [of n] by (cases D) (auto simp: D_def)
  have u: "list_all unquoted_char (q # v)" "q \<noteq> CHR 0x22" "q \<noteq> CHR 0x27"
    using dec_int_unquoted [of n] qv by (simp_all add: D_def)
  have sc1: "attrs_scan ('' data-show-id='' @ D @ ''>'' @ T) = ([(''data-show-id'', D)], T)"
    using attrs_scan_unquoted [of "'' ''" "CHR ''d''" "''ata-show-id''" q v "CHR ''>''" T] attrs_scan_close [of "[]" T] qv u
    by (simp add: is_html_ws_def attr_name_char_def unquoted_char_def)
  have sc: "attrs_scan ('' class=Show data-show-id='' @ D @ ''>'' @ T) = ([(''class'', ''Show''), (''data-show-id'', D)], T)"
    using attrs_scan_unquoted [of "'' ''" "CHR ''c''" "''lass''" "CHR ''S''" "''how''" "CHR '' ''"
        "''data-show-id='' @ D @ ''>'' @ T"] sc1
    by (simp add: is_html_ws_def attr_name_char_def unquoted_char_def)
  have t2: "tag_tokens (''<div class=Show data-show-id='' @ D @ ''>'' @ T)
      = StartTag ''div'' [(''class'', ''Show''), (''data-show-id'', D)] # tag_tokens T"
    using tag_tokens_tag [of "[]" "CHR ''d''" "''iv''" "'' class=Show data-show-id='' @ D @ ''>'' @ T"] sc
    by (simp add: is_ascii_alpha_def tag_name_char_def is_html_ws_def)
  have c1: "tok_closed ''</h5></div></div></div>''" by code_simp
  have t1: "tag_tokens ''</h5></div></div></div>'' = [EndTag ''h5'', EndTag ''div'', EndTag ''div'', EndTag ''div'']"
    by code_simp
  have "js_to_string (show_name sh) @ T = ''</h5></div></div></div>'' @ (''<div class=Show data-show-id='' @ D @ ''>'' @ T)"
    using assms(1) by (simp add: D_def)
  then have toks: "tag_tokens (js_to_string (show_name sh) @ T) =
      [EndTag ''h5'', EndTag ''div'', EndTag ''div'', EndTag ''div'', StartTag ''div'' [(''class'', ''Show''), (''data-show-id'', D)]]
      @ tag_tokens T"
    using tag_tokens_append [OF c1] t1 t2 by simp
  have nq: "CHR 0x22 \<notin> set (js_to_string (show_name sh))" using assms(1) by simp
  have path: "element_path ''button'' [] None (tag_tokens (show_markup sh)) =
      Some [(''button'', button_attrs), (''div'', [(''class'', ''Show''), (''data-show-id'', D)])]"
    using card_button_path [OF assms(2,3) nq assms(4)] toks by (simp add: T_def void_element_def)
  have "has_class ''Show'' (''div'', [(''class'', ''Show''), (''data-show-id'', D)])"
    by (simp add: has_class_def attr_value_def split_ws.simps is_html_ws_def)
  with path card_classes(1) show ?thesis
    by (simp add: closest_show_data_def attr_value_def jq_data_def D_def)
qed


subsection \<open>Episode lines\<close>

lemma num_chars_dec_int: "list_all is_num_char (dec_int i)"
  by (auto simp: list_all_iff is_num_char_def dest: dec_int_char_cases)

lemma takeWhile_num_rev_dec_int:
  "\<not> is_num_char c \<Longrightarrow> takeWhile is_num_char (rev (dec_int i) @ c # r) = rev (dec_int i)
   \<and> dropWhile is_num_char (rev (dec_int i) @ c # r) = c # r"
  using num_chars_dec_int [of i] by (intro takeWhile_dropWhile_stop) (simp_all add: list_all_iff)

lemma parse_episode_line_print:
  "parse_episode_line (nm @ ''(season '' @ dec_int s @ '', episode '' @ dec_int n @ '')'') = Some (s, n)"
proof -
  have sp: "\<not> is_num_char (CHR '' '')" by (simp add: is_num_char_def)
  have r: "rev (nm @ ''(season '' @ dec_int s @ '', episode '' @ dec_int n @ '')'') =
     CHR '')'' # rev (dec_int n) @ rev '', episode '' @ rev (dec_int s) @ rev ''(season '' @ rev nm"
    by simp
  have n: "takeWhile is_num_char (rev (dec_int n) @ rev '', episode '' @ rev (dec_int s) @ rev ''(season '' @ rev nm) = rev (dec_int n)"
     "dropWhile is_num_char (rev (dec_int n) @ rev '', episode '' @ rev (dec_int s) @ rev ''(season '' @ rev nm)
        = rev '', episode '' @ rev (dec_int s) @ rev ''(season '' @ rev nm"
    using takeWhile_num_rev_dec_int [OF sp, of n] by simp_all
  have s: "takeWhile is_num_char (rev (dec_int s) @ rev ''(season '' @ rev nm) = rev (dec_int s)"
     "dropWhile is_num_char (rev (dec_int s) @ rev ''(season '' @ rev nm) = rev ''(season '' @ rev nm"
    using takeWhile_num_rev_dec_int [OF sp, of s] by simp_all
  have e: "take 10 (rev '', episode '' @ X) = rev '', episode ''" "drop 10 (rev '', episode '' @ X) = X" for X
    by simp_all
  have c: "take 8 (rev ''(season '' @ X) = rev ''(season ''" for X
    by simp
  show ?thesis
    unfolding parse_episode_line_def r
    by (simp only: list.case n e s c rev_rev_ident parse_dec_int_dec_int) simp
qed

subsection \<open>Properties of the renderers\<close>

text \<open>C5: rendering a list of shows yields exactly one card per show, in input order,
  and the root element of the \<open>i\<close>-th card is a \<open>div\<close> of class \<open>Show\<close> whose
  \<open>data-show-id\<close> attribute holds the \<open>i\<close>-th show's identifier.\<close>

theorem populateShows_cards:
  assumes "i < length shows" and "attr_safe (js_to_string (show_id (shows ! i)))"
  shows "length (showsList (populateShows shows d)) = length shows
    \<and> root_start_tag (showsList (populateShows shows d) ! i) =
        Some (''div'', [(''data-show-id'', js_to_string (show_id (shows ! i))),
                        (''class'', ''Show col-md-12 col-lg-6 mb-4'')])"
  using assms root_start_tag_show_markup [OF attr_safe_quote [OF assms(2)]] by simp

theorem populateShows_cards_witness:
  "0 < length [\<lparr>show_id = JNum 139, show_name = JStr ''Batman'', show_summary = JNull,
                 show_image = JStr missing_url_image\<rparr>]
   \<and> root_start_tag (showsList (populateShows
        [\<lparr>show_id = JNum 139, show_name = JStr ''Batman'', show_summary = JNull,
           show_image = JStr missing_url_image\<rparr>] init_dom) ! 0) =
      Some (''div'', [(''data-show-id'', ''139''), (''class'', ''Show col-md-12 col-lg-6 mb-4'')])"
proof -
  have d: "dec_int 139 = ''139''" by (simp add: dec_int_def dec_nat.simps)
  moreover have "attr_safe ''139''" using attr_safe_dec_int [of 139] d by simp
  ultimately show ?thesis
    using populateShows_cards [of 0 "[\<lparr>show_id = JNum 139, show_name = JStr ''Batman'',
        show_summary = JNull, show_image = JStr missing_url_image\<rparr>]" init_dom]
    by simp
qed

text \<open>C27: rendering an empty list of shows empties the show region, and rendering the
  same list twice is the same as rendering it once.\<close>

theorem populateShows_empty_idempotent:
  "showsList (populateShows [] d) = []
   \<and> populateShows shows (populateShows shows d) = populateShows shows d"
  by (simp add: populateShows_def)





text \<open>C28: an episode line reads back: for an episode whose season and number are
  integers and whose name contains no \<open><\<close>, the text the \<open>li\<close> element displays
  parses back, from its end, to that season and number (what the user reads is
  \<open>name(season s, episode n)\<close>, spec section 4.4, and it is unambiguous whatever the
  name holds otherwise, parentheses and digits included).\<close>

theorem episode_line_roundtrip:
  assumes "ep_season e = JNum s" and "ep_number e = JNum n"
    and "CHR ''<'' \<notin> set (js_to_string (ep_name e))"
  shows "map_option parse_episode_line (tag_text ''li'' (episode_markup e)) = Some (Some (s, n))"
proof -
  define L where "L = js_to_string (ep_name e) @ ''(season '' @ dec_int s @ '', episode '' @ dec_int n @ '')''"
  have m: "episode_markup e = ''<li>'' @ L @ ''</li>''"
    using assms(1,2) by (simp add: episode_markup_def L_def)
  have t: "start_tags (''<li>'' @ L @ ''</li>'') = (''li'', [], L @ ''</li>'') # start_tags (L @ ''</li>'')"
    using start_tags_tag [of "[]" "CHR ''l''" "''i''" "''>'' @ L @ ''</li>''"] attrs_scan_close [of "[]" "L @ ''</li>''"]
    by (simp add: is_ascii_alpha_def tag_name_char_def is_html_ws_def)
  have "list_all (\<lambda>c. c \<noteq> CHR ''<'') L"
  proof -
    have d: "list_all (\<lambda>c. c \<noteq> CHR ''<'') (dec_int i)" for i
      using num_chars_dec_int [of i] by (rule list.pred_mono_strong) (auto simp: is_num_char_def)
    have "list_all (\<lambda>c. c \<noteq> CHR ''<'') (js_to_string (ep_name e))"
      using assms(3) by (auto simp: list_all_iff)
    with d show ?thesis by (simp add: L_def)
  qed
  then have "takeWhile (\<lambda>c. c \<noteq> CHR ''<'') (L @ ''</li>'') = L"
    using takeWhile_dropWhile_stop [of "\<lambda>c. c \<noteq> CHR ''<''" L "CHR ''<''" "''/li>''"] by simp
  with m t have "tag_text ''li'' (episode_markup e) = Some L" by (simp add: tag_text_def)
  moreover have "parse_episode_line L = Some (s, n)" by (simp only: L_def parse_episode_line_print)
  ultimately show ?thesis by simp
qed

theorem episode_line_roundtrip_witness:
  "ep_season \<lparr>ep_id = JNum 1, ep_name = JStr ''Pilot (1)'', ep_season = JNum 1, ep_number = JNum 2\<rparr> = JNum 1
   \<and> ep_number \<lparr>ep_id = JNum 1, ep_name = JStr ''Pilot (1)'', ep_season = JNum 1, ep_number = JNum 2\<rparr> = JNum 2
   \<and> CHR ''<'' \<notin> set (js_to_string (ep_name \<lparr>ep_id = JNum 1, ep_name = JStr ''Pilot (1)'', ep_season = JNum 1, ep_number = JNum 2\<rparr>))
   \<and> map_option parse_episode_line (tag_text ''li'' (episode_markup
        \<lparr>ep_id = JNum 1, ep_name = JStr ''Pilot (1)'', ep_season = JNum 1, ep_number = JNum 2\<rparr>)) = Some (Some (1, 2))"
proof -
  have a: "CHR ''<'' \<notin> set (js_to_string (JStr ''Pilot (1)''))" by simp
  from episode_line_roundtrip [of "\<lparr>ep_id = JNum 1, ep_name = JStr ''Pilot (1)'', ep_season = JNum 1, ep_number = JNum 2\<rparr>" 1 2]
    a show ?thesis by simp
qed



text \<open>C35: a show whose summary is \<open>null\<close> renders exactly like a show whose summary is
  the text \<open>null\<close>: the card displays the word.\<close>

theorem null_summary_rendered:
  "show_summary sh = JNull \<Longrightarrow> show_markup sh = show_markup (sh\<lparr>show_summary := JStr ''null''\<rparr>)"
  by (simp add: show_markup_def)

theorem null_summary_rendered_witness:
  "show_summary quote_name_show = JNull
   \<and> show_markup quote_name_show = show_markup (quote_name_show\<lparr>show_summary := JStr ''null''\<rparr>)"
  using null_summary_rendered [of quote_name_show] by (simp add: quote_name_show_def)

text \<open>C36: a show whose image is an object without a \<open>medium\<close> field is mapped with
  the image \<open>undefined\<close>, not the placeholder, and its card's image points at the URL
  \<open>undefined\<close> (the code tests only that \<open>show.image\<close> is truthy).\<close>

theorem image_without_medium:
  assumes "getShowsByTerm_resume (Inr (JArr ws)) = Inr rs" and "i < length ws"
    and "prop_or_undef (prop_or_undef (ws ! i) ''show'') ''image'' = JObj ikvs"
    and "''medium'' \<notin> set (map fst ikvs)"
    and "CHR 0x22 \<notin> set (js_to_string (show_id (rs ! i)))" and "CHR 0x22 \<notin> set (js_to_string (show_name (rs ! i)))"
  shows "show_image (rs ! i) = JUndefined
    \<and> find_start_tag ''img'' (show_markup (rs ! i)) =
        Some [(''src'', ''undefined''), (''alt'', js_to_string (show_name (rs ! i))), (''class'', ''w-25 me-3'')]"
proof -
  have "map_of (rev ikvs) ''medium'' = None" using assms(4) by (simp add: map_of_eq_None_iff image_iff)
  then have im: "show_image (rs ! i) = JUndefined"
    using getShowsByTerm_resume_nth [OF assms(1)] assms(2,3) by (simp add: show_of_shape_def prop_or_undef_def)
  then have "CHR 0x22 \<notin> set (js_to_string (show_image (rs ! i)))" by simp
  from start_tags_show_markup [OF assms(5) this assms(6)] im show ?thesis
    by (auto simp: find_start_tag_def)
qed

theorem image_without_medium_witness:
  "getShowsByTerm_resume (Inr (JArr [JObj [(''show'', JObj [(''id'', JNum 1), (''name'', JStr ''Lost''),
       (''image'', JObj [(''original'', JStr ''o.jpg'')])])]]))
     = Inr [\<lparr>show_id = JNum 1, show_name = JStr ''Lost'', show_summary = JUndefined, show_image = JUndefined\<rparr>]
   \<and> find_start_tag ''img'' (show_markup \<lparr>show_id = JNum 1, show_name = JStr ''Lost'',
        show_summary = JUndefined, show_image = JUndefined\<rparr>)
      = Some [(''src'', ''undefined''), (''alt'', ''Lost''), (''class'', ''w-25 me-3'')]"
proof -
  have r: "getShowsByTerm_resume (Inr (JArr [JObj [(''show'', JObj [(''id'', JNum 1), (''name'', JStr ''Lost''),
       (''image'', JObj [(''original'', JStr ''o.jpg'')])])]]))
     = Inr [\<lparr>show_id = JNum 1, show_name = JStr ''Lost'', show_summary = JUndefined, show_image = JUndefined\<rparr>]"
    by code_simp
  have p: "prop_or_undef (prop_or_undef ([JObj [(''show'', JObj [(''id'', JNum 1), (''name'', JStr ''Lost''),
       (''image'', JObj [(''original'', JStr ''o.jpg'')])])]] ! 0) ''show'') ''image''
     = JObj [(''original'', JStr ''o.jpg'')]"
    by (simp add: prop_or_undef_def)
  from image_without_medium [OF r _ p] r show ?thesis by simp
qed

text \<open>C6: the image of a card is the show's image and its alternative text the show's
  name: for attribute-safe id, image and name, the card's \<open>img\<close> element has exactly the
  attributes \<open>src\<close> (the image URL, the placeholder when the API gave none), \<open>alt\<close> (the
  name) and \<open>class\<close>.\<close>

theorem card_image_attributes:
  assumes "attr_safe (js_to_string (show_id sh))" and "attr_safe (js_to_string (show_image sh))"
    and "attr_safe (js_to_string (show_name sh))"
  shows "find_start_tag ''img'' (show_markup sh) =
    Some [(''src'', js_to_string (show_image sh)), (''alt'', js_to_string (show_name sh)), (''class'', ''w-25 me-3'')]"
  using start_tags_show_markup [OF attr_safe_quote [OF assms(1)] attr_safe_quote [OF assms(2)]
      attr_safe_quote [OF assms(3)]]
  by (auto simp: find_start_tag_def)

theorem card_image_attributes_witness:
  "attr_safe (js_to_string (JNum 975)) \<and> attr_safe (js_to_string (JStr missing_url_image))
   \<and> attr_safe (js_to_string (JStr ''Batman''))
   \<and> find_start_tag ''img'' (show_markup \<lparr>show_id = JNum 975, show_name = JStr ''Batman'',
        show_summary = JNull, show_image = JStr missing_url_image\<rparr>)
      = Some [(''src'', ''https://tinyurl.com/tv-missing''), (''alt'', ''Batman''), (''class'', ''w-25 me-3'')]"
proof -
  have s: "attr_safe (js_to_string (JStr missing_url_image))" "attr_safe (js_to_string (JStr ''Batman''))"
    by (simp_all add: attr_safe_def missing_url_image_def)
  have i: "attr_safe (js_to_string (JNum 975))" by simp
  from card_image_attributes [of "\<lparr>show_id = JNum 975, show_name = JStr ''Batman'',
        show_summary = JNull, show_image = JStr missing_url_image\<rparr>"] i s
  show ?thesis by (simp add: missing_url_image_def)
qed

text \<open>C7: the card's heading displays the show's name up to its first \<open><\<close>: for an
  attribute-safe id, image and name, the text after the \<open>h5\<close> start tag is the name,
  cut where markup would begin (the whole name when it has no \<open><\<close>).\<close>

theorem card_heading_text:
  assumes "attr_safe (js_to_string (show_id sh))" and "attr_safe (js_to_string (show_image sh))"
    and "attr_safe (js_to_string (show_name sh))"
  shows "tag_text ''h5'' (show_markup sh) = Some (takeWhile (\<lambda>c. c \<noteq> CHR ''<'') (js_to_string (show_name sh)))"
proof -
  obtain r1 r2 r3 r4 r5 where st: "start_tags (show_markup sh) =
     (''div'', [(''data-show-id'', js_to_string (show_id sh)), (''class'', ''Show col-md-12 col-lg-6 mb-4'')], r1)
     # (''div'', [(''class'', ''media'')], r2)
     # (''img'', [(''src'', js_to_string (show_image sh)), (''alt'', js_to_string (show_name sh)),
                  (''class'', ''w-25 me-3'')], r3)
     # (''div'', [(''class'', ''media-body'')], r4)
     # (''h5'', [(''class'', ''text-primary'')], js_to_string (show_name sh) @ ''</h5>'' @ r5)
     # start_tags (js_to_string (show_name sh) @ ''</h5>'' @ r5)"
    using start_tags_show_markup [OF attr_safe_quote [OF assms(1)] attr_safe_quote [OF assms(2)]
      attr_safe_quote [OF assms(3)]] by blast
  have "takeWhile (\<lambda>c. c \<noteq> CHR ''<'') (xs @ ''</h5>'' @ r5) = takeWhile (\<lambda>c. c \<noteq> CHR ''<'') xs" for xs
    by (induction xs) auto
  with st show ?thesis by (simp add: tag_text_def)
qed

theorem card_heading_text_witness:
  "attr_safe (js_to_string (JNum 975)) \<and> attr_safe (js_to_string (JStr missing_url_image))
   \<and> attr_safe (js_to_string (JStr ''Batman''))
   \<and> tag_text ''h5'' (show_markup \<lparr>show_id = JNum 975, show_name = JStr ''Batman'',
        show_summary = JNull, show_image = JStr missing_url_image\<rparr>) = Some ''Batman''"
proof -
  have s: "attr_safe (js_to_string (JStr missing_url_image))" "attr_safe (js_to_string (JStr ''Batman''))"
    by (simp_all add: attr_safe_def missing_url_image_def)
  have i: "attr_safe (js_to_string (JNum 975))" by simp
  from card_heading_text [of "\<lparr>show_id = JNum 975, show_name = JStr ''Batman'',
        show_summary = JNull, show_image = JStr missing_url_image\<rparr>"] i s
  show ?thesis by simp
qed

end
