(* ===== verification/Controllers.thy ===== *)
theory Controllers
  imports Render
begin

text \<open>
  The two controllers of \<open>src/tvmaze.js\<close> and the event loop that runs them.
  \<^item> \<open>searchForShowAndDisplay\<close> (lines 67--73) and its submit handler (lines 75--78);
    \<open>getEpisodesAndDisplay\<close> (lines 111--116) and its delegated click handler
    (line 118). Each suspends once, at the \<open>await\<close> of its mapper, so each is two
    steps: \<open>_start\<close> runs the handler up to the request (reading the input value or the
    card's id), \<open>_resume\<close> runs the rest once the request settles. Between the two,
    any other event may run: other submits, clicks, other requests settling.
  \<^item> \<open>app\<close>: the page, the requests issued and not settled (\<open>pending\<close>, each with the
    continuation waiting for it), the log of requests sent, and the next request number.
  \<^item> \<open>event\<close>: what the environment does: the user edits the search field, submits the
    form, clicks the Episodes button of the \<open>i\<close>-th card, or request \<open>k\<close> settles
    (\<open>Inl\<close>: axios rejects; \<open>Inr\<close>: \<open>response.data\<close>). \<open>app_step\<close> is the
    deterministic reaction to one event, \<open>app_run\<close> to a sequence; \<open>reachable\<close> the
    states some sequence of events leads to, one introduction rule per handler.
  The last subsection takes interleavings from any reachable state: responses that
  overtake one another, and markup in a show name that redirects the click.
  A rejected promise of a handler is not caught anywhere: its continuation has no effect
  on the page. \<open>evt.preventDefault()\<close> keeps the page from navigating; the model has
  no navigation, so it has no counterpart.
\<close>

datatype continuation = KSearch | KEpisodes

record app =
  page :: dom
  pending :: "(nat \<times> continuation) list"
  sent :: "(nat \<times> http_request) list"
  next_req :: nat

datatype event =
    TypeTerm string
  | SubmitSearch
  | ClickEpisodes nat
  | Settle nat "js_error + jsval"

definition init_app :: app where
  "init_app = \<lparr>page = init_dom, pending = [], sent = [], next_req = 0\<rparr>"

definition issue :: "continuation \<Rightarrow> http_request \<Rightarrow> app \<Rightarrow> app" where
  "issue kont req s =
     s\<lparr>pending := pending s @ [(next_req s, kont)], sent := sent s @ [(next_req s, req)],
       next_req := Suc (next_req s)\<rparr>"

definition hide_episodesArea :: "dom \<Rightarrow> dom" where
  "hide_episodesArea d = d\<lparr>episodesArea_visible := False\<rparr>"

section \<open>The search controller\<close>

definition searchForShowAndDisplay_start :: "app \<Rightarrow> app" where
  "searchForShowAndDisplay_start s = issue KSearch (search_request (searchForm_term (page s))) s"

definition searchForShowAndDisplay_resume :: "js_error + jsval \<Rightarrow> dom \<Rightarrow> dom" where
  "searchForShowAndDisplay_resume response d =
     (case getShowsByTerm_resume response of
        Inl e \<Rightarrow> d
      | Inr shows \<Rightarrow> populateShows shows (hide_episodesArea d))"

section \<open>The episode controller\<close>

definition getEpisodesAndDisplay_start :: "json_parser \<Rightarrow> nat \<Rightarrow> app \<Rightarrow> app" where
  "getEpisodesAndDisplay_start jp i s =
     (if i < length (showsList (page s))
      then issue KEpisodes (episodes_request (closest_show_data jp (showsList (page s) ! i))) s
      else s)"

definition getEpisodesAndDisplay_resume :: "js_error + jsval \<Rightarrow> dom \<Rightarrow> dom" where
  "getEpisodesAndDisplay_resume response d =
     (case getEpisodesOfShow_resume response of
        Inl e \<Rightarrow> d
      | Inr episodes \<Rightarrow> populateEpisodes episodes d)"

section \<open>The event loop\<close>

definition resume :: "continuation \<Rightarrow> js_error + jsval \<Rightarrow> dom \<Rightarrow> dom" where
  "resume kont response =
     (case kont of
        KSearch \<Rightarrow> searchForShowAndDisplay_resume response
      | KEpisodes \<Rightarrow> getEpisodesAndDisplay_resume response)"

definition settle :: "nat \<Rightarrow> js_error + jsval \<Rightarrow> app \<Rightarrow> app" where
  "settle k response s =
     (case map_of (pending s) k of
        None \<Rightarrow> s
      | Some kont \<Rightarrow>
          s\<lparr>pending := filter (\<lambda>(j, _). j \<noteq> k) (pending s),
            page := resume kont response (page s)\<rparr>)"

fun app_step :: "json_parser \<Rightarrow> app \<Rightarrow> event \<Rightarrow> app" where
  "app_step jp s (TypeTerm t) = s\<lparr>page := (page s)\<lparr>searchForm_term := t\<rparr>\<rparr>"
| "app_step jp s SubmitSearch = searchForShowAndDisplay_start s"
| "app_step jp s (ClickEpisodes i) = getEpisodesAndDisplay_start jp i s"
| "app_step jp s (Settle k response) = settle k response s"

fun app_run :: "json_parser \<Rightarrow> app \<Rightarrow> event list \<Rightarrow> app" where
  "app_run jp s [] = s"
| "app_run jp s (e # es) = app_run jp (app_step jp s e) es"

inductive reachable :: "json_parser \<Rightarrow> app \<Rightarrow> bool" for jp where
  init: "reachable jp init_app"
| type_term: "reachable jp s \<Longrightarrow> reachable jp (s\<lparr>page := (page s)\<lparr>searchForm_term := t\<rparr>\<rparr>)"
| submit: "reachable jp s \<Longrightarrow> reachable jp (searchForShowAndDisplay_start s)"
| click: "reachable jp s \<Longrightarrow> reachable jp (getEpisodesAndDisplay_start jp i s)"
| settled: "reachable jp s \<Longrightarrow> reachable jp (settle k response s)"

text \<open>Bookkeeping invariant: the pending requests have distinct numbers, each below the
  next number, and each was sent.\<close>

definition pending_wf :: "app \<Rightarrow> bool" where
  "pending_wf s \<longleftrightarrow>
     distinct (map fst (pending s)) \<and> (\<forall>k \<in> fst ` set (pending s). k < next_req s)
     \<and> fst ` set (pending s) \<subseteq> fst ` set (sent s)"

text \<open>Every card on the page is the markup of some show record.\<close>

definition cards_wf :: "app \<Rightarrow> bool" where
  "cards_wf s \<longleftrightarrow> (\<forall>h \<in> set (showsList (page s)). \<exists>r. h = show_markup r)"

text \<open>Sample payloads for the scenarios below: two shows and one episode.\<close>

definition show_a :: api_show where
  "show_a = \<lparr>a_id = 1, a_name = ''A'', a_summary = None, a_image = None\<rparr>"

definition show_b :: api_show where
  "show_b = \<lparr>a_id = 2, a_name = ''B'', a_summary = None, a_image = None\<rparr>"

definition pilot :: api_episode where
  "pilot = \<lparr>e_id = 10, e_name = ''Pilot'', e_season = 1, e_number = 1\<rparr>"

text \<open>A show whose name is markup that closes the card and opens another \<open>.Show\<close>
  element.\<close>

definition show_injected :: api_show where
  "show_injected = \<lparr>a_id = 1, a_name = ''</h5></div></div></div><div class=Show data-show-id=666>'',
     a_summary = None, a_image = None\<rparr>"

section \<open>Lemmas\<close>

subsection \<open>Handlers in closed form\<close>

lemma issue_fields [simp]:
  "page (issue kont req s) = page s"
  "pending (issue kont req s) = pending s @ [(next_req s, kont)]"
  "sent (issue kont req s) = sent s @ [(next_req s, req)]"
  "next_req (issue kont req s) = Suc (next_req s)"
  by (simp_all add: issue_def)

lemma settle_None [simp]: "map_of (pending s) k = None \<Longrightarrow> settle k response s = s"
  by (simp add: settle_def)

lemma settle_Some:
  "map_of (pending s) k = Some kont \<Longrightarrow>
     settle k response s =
       s\<lparr>pending := filter (\<lambda>(j, _). j \<noteq> k) (pending s), page := resume kont response (page s)\<rparr>"
  by (simp add: settle_def)

lemma settle_fields [simp]:
  "sent (settle k response s) = sent s"
  "next_req (settle k response s) = next_req s"
  by (simp_all add: settle_def split: option.splits)

lemma map_of_filter_key [simp]: "map_of (filter (\<lambda>(j, _). j \<noteq> k) xs) k = None"
  by (induction xs) auto

lemma resume_shows:
  "showsList (resume kont response d) = showsList d
   \<or> (\<exists>shows. showsList (resume kont response d) = map show_markup shows)"
  by (auto simp: resume_def searchForShowAndDisplay_resume_def getEpisodesAndDisplay_resume_def
        hide_episodesArea_def split: continuation.splits sum.splits)

subsection \<open>Runs and reachable states\<close>

lemma reachable_step: "reachable jp s \<Longrightarrow> reachable jp (app_step jp s e)"
  by (cases e) (auto intro: reachable.intros)

lemma app_run_append: "app_run jp s (es @ [e]) = app_step jp (app_run jp s es) e"
  by (induction es arbitrary: s) auto

lemma reachable_app_run: "reachable jp s \<Longrightarrow> reachable jp (app_run jp s es)"
  by (induction es arbitrary: s) (auto intro: reachable_step)

lemma reachable_is_run: "reachable jp s \<Longrightarrow> \<exists>es. s = app_run jp init_app es"
proof (induction rule: reachable.induct)
  case init
  show ?case by (rule exI [of _ "[]"]) simp
next
  case (type_term s t)
  then obtain es where "s = app_run jp init_app es" by blast
  then show ?case by (intro exI [of _ "es @ [TypeTerm t]"]) (simp add: app_run_append)
next
  case (submit s)
  then obtain es where "s = app_run jp init_app es" by blast
  then show ?case by (intro exI [of _ "es @ [SubmitSearch]"]) (simp add: app_run_append)
next
  case (click s i)
  then obtain es where "s = app_run jp init_app es" by blast
  then show ?case by (intro exI [of _ "es @ [ClickEpisodes i]"]) (simp add: app_run_append)
next
  case (settled s k response)
  then obtain es where "s = app_run jp init_app es" by blast
  then show ?case by (intro exI [of _ "es @ [Settle k response]"]) (simp add: app_run_append)
qed

subsection \<open>Invariants\<close>

lemma pending_wf_init: "pending_wf init_app"
  by (simp add: pending_wf_def init_app_def)

lemma pending_wf_issue: "pending_wf s \<Longrightarrow> pending_wf (issue kont req s)"
  by (auto simp: pending_wf_def)

lemma pending_wf_settle: "pending_wf s \<Longrightarrow> pending_wf (settle k response s)"
  by (cases "map_of (pending s) k")
     (auto simp: pending_wf_def settle_Some distinct_map_filter)

lemma pending_wf_reachable_aux: "reachable jp s \<Longrightarrow> pending_wf s"
proof (induction rule: reachable.induct)
  case init
  show ?case by (rule pending_wf_init)
next
  case (type_term s t)
  then show ?case by (simp add: pending_wf_def)
next
  case (submit s)
  then show ?case by (simp add: searchForShowAndDisplay_start_def pending_wf_issue)
next
  case (click s i)
  then show ?case by (simp add: getEpisodesAndDisplay_start_def pending_wf_issue)
next
  case (settled s k response)
  from settled.IH show ?case by (rule pending_wf_settle)
qed

lemma cards_wf_settle: "cards_wf s \<Longrightarrow> cards_wf (settle k response s)"
proof (cases "map_of (pending s) k")
  case (Some kont)
  assume wf: "cards_wf s"
  from resume_shows [of kont response "page s"] wf show ?thesis
    by (auto simp: cards_wf_def settle_Some [OF Some])
qed simp

lemma cards_wf_reachable_aux: "reachable jp s \<Longrightarrow> cards_wf s"
proof (induction rule: reachable.induct)
  case init
  show ?case by (simp add: cards_wf_def init_app_def init_dom_def)
next
  case (type_term s t)
  then show ?case by (simp add: cards_wf_def)
next
  case (submit s)
  then show ?case by (simp add: cards_wf_def searchForShowAndDisplay_start_def)
next
  case (click s i)
  then show ?case by (simp add: cards_wf_def getEpisodesAndDisplay_start_def)
next
  case (settled s k response)
  from settled.IH show ?case by (rule cards_wf_settle)
qed

lemma episodes_visible_step:
  "episodesArea_visible (page (app_step jp s ev)) \<Longrightarrow> \<not> episodesArea_visible (page s) \<Longrightarrow>
   \<exists>k r eps. ev = Settle k r \<and> map_of (pending s) k = Some KEpisodes
     \<and> getEpisodesOfShow_resume r = Inr eps
     \<and> page (app_step jp s ev) = populateEpisodes eps (page s)"
proof (cases ev)
  case (Settle k r)
  assume vis: "episodesArea_visible (page (app_step jp s ev))" and hid: "\<not> episodesArea_visible (page s)"
  show ?thesis
  proof (cases "map_of (pending s) k")
    case None
    with Settle vis hid show ?thesis by simp
  next
    case (Some kont)
    with Settle vis hid show ?thesis
      by (cases kont)
         (auto simp: settle_Some resume_def searchForShowAndDisplay_resume_def hide_episodesArea_def
            getEpisodesAndDisplay_resume_def split: sum.splits)
  qed
qed (auto simp: searchForShowAndDisplay_start_def getEpisodesAndDisplay_start_def split: if_splits)

subsection \<open>Properties of the controllers\<close>

text \<open>C14: submitting the search form sends one search request carrying the input's value
  exactly as typed (no trimming, an empty term included) and changes nothing on the page:
  in particular the episode region is not hidden at submission, contrary to the spec's
  ordering guarantee (section 4.5), since the code hides it only after the response.\<close>

theorem submit_issues_request_only:
  "page (app_step jp s SubmitSearch) = page s
   \<and> sent (app_step jp s SubmitSearch) = sent s @ [(next_req s, search_request (searchForm_term (page s)))]
   \<and> pending (app_step jp s SubmitSearch) = pending s @ [(next_req s, KSearch)]"
  by (simp add: searchForShowAndDisplay_start_def)

text \<open>C15: when a pending search fails (the request is rejected or the body makes the
  mapper throw), the page is left exactly as it was: in particular episodes still shown
  stay shown, although the spec says the episode region is hidden unconditionally at the
  start of every search.\<close>

theorem search_failure_keeps_page:
  assumes "map_of (pending s) k = Some KSearch" and "getShowsByTerm_resume r = Inl e"
  shows "page (app_step jp s (Settle k r)) = page s"
  using assms by (simp add: settle_Some resume_def searchForShowAndDisplay_resume_def)

theorem search_failure_keeps_page_witness:
  "map_of (pending (searchForShowAndDisplay_start init_app)) 0 = Some KSearch
   \<and> getShowsByTerm_resume (Inl (AxiosError (Some 500))) = Inl (AxiosError (Some 500))
   \<and> page (app_step (\<lambda>_. None) (searchForShowAndDisplay_start init_app) (Settle 0 (Inl (AxiosError (Some 500)))))
       = page (searchForShowAndDisplay_start init_app)"
proof -
  have p: "map_of (pending (searchForShowAndDisplay_start init_app)) 0 = Some KSearch"
    by (simp add: searchForShowAndDisplay_start_def init_app_def)
  have r: "getShowsByTerm_resume (Inl (AxiosError (Some 500))) = Inl (AxiosError (Some 500))"
    by simp
  from search_failure_keeps_page [OF p r, of "\<lambda>_. None"] p r show ?thesis by simp
qed

text \<open>C16: when a pending episode request fails (the request is rejected or the body makes
  the mapper throw), the page is left exactly as it was (no error is shown, spec section 7)
  and the request is no longer pending: it is not retried.\<close>

theorem episodes_failure_keeps_page:
  assumes "map_of (pending s) k = Some KEpisodes" and "getEpisodesOfShow_resume r = Inl e"
  shows "page (app_step jp s (Settle k r)) = page s
    \<and> map_of (pending (app_step jp s (Settle k r))) k = None
    \<and> sent (app_step jp s (Settle k r)) = sent s"
  using assms by (simp add: settle_Some resume_def getEpisodesAndDisplay_resume_def)

theorem episodes_failure_keeps_page_witness:
  "map_of (pending (issue KEpisodes (episodes_request (JNum 1)) init_app)) 0 = Some KEpisodes
   \<and> getEpisodesOfShow_resume (Inr JNull) = Inl TypeError
   \<and> page (app_step (\<lambda>_. None) (issue KEpisodes (episodes_request (JNum 1)) init_app) (Settle 0 (Inr JNull)))
       = page (issue KEpisodes (episodes_request (JNum 1)) init_app)"
proof -
  let ?s = "issue KEpisodes (episodes_request (JNum 1)) init_app"
  have p: "map_of (pending ?s) 0 = Some KEpisodes" by (simp add: init_app_def)
  have r: "getEpisodesOfShow_resume (Inr JNull) = Inl TypeError"
    by (simp add: getEpisodesOfShow_resume_def js_array_map_def)
  from episodes_failure_keeps_page [OF p r, of "\<lambda>_. None"] p r show ?thesis by simp
qed

text \<open>C13: the episode region only becomes visible when a pending episode request
  settles with a response the mapper accepts; the step is then exactly the rendering of
  those episodes.\<close>

theorem episodes_area_shown_only_by_episodes:
  assumes "\<not> episodesArea_visible (page s)" and "episodesArea_visible (page (app_step jp s ev))"
  shows "\<exists>k r eps. ev = Settle k r \<and> map_of (pending s) k = Some KEpisodes
     \<and> getEpisodesOfShow_resume r = Inr eps
     \<and> page (app_step jp s ev) = populateEpisodes eps (page s)"
  using episodes_visible_step assms by blast

theorem episodes_area_shown_only_by_episodes_witness:
  "\<not> episodesArea_visible (page (issue KEpisodes (episodes_request (JNum 1)) init_app))
   \<and> episodesArea_visible (page (app_step (\<lambda>_. None) (issue KEpisodes (episodes_request (JNum 1)) init_app)
        (Settle 0 (Inr (episodes_json [pilot])))))"
proof -
  let ?s = "issue KEpisodes (episodes_request (JNum 1)) init_app"
  let ?ev = "Settle 0 (Inr (episodes_json [pilot]))"
  have h: "\<not> episodesArea_visible (page ?s)" by (simp add: init_app_def init_dom_def)
  have v: "episodesArea_visible (page (app_step (\<lambda>_. None) ?s ?ev))"
    by (simp add: init_app_def settle_Some resume_def getEpisodesAndDisplay_resume_def eval_simps pilot_def)
  from episodes_area_shown_only_by_episodes [OF h v] h v show ?thesis by simp
qed



text \<open>C17: in every reachable state the pending requests have distinct numbers below the
  next one, each was sent, and every card on the page is the markup of a show record.\<close>

theorem reachable_invariants:
  "reachable jp s \<Longrightarrow> pending_wf s \<and> cards_wf s"
proof (induction rule: reachable.induct)
  case init
  show ?case using pending_wf_init by (simp add: cards_wf_def init_app_def init_dom_def)
next
  case (type_term s t)
  then show ?case by (simp add: pending_wf_def cards_wf_def)
next
  case (submit s)
  then show ?case by (simp add: searchForShowAndDisplay_start_def pending_wf_issue cards_wf_def)
next
  case (click s i)
  then show ?case by (simp add: getEpisodesAndDisplay_start_def pending_wf_issue cards_wf_def)
next
  case (settled s k response)
  then show ?case by (simp add: pending_wf_settle cards_wf_settle)
qed

theorem reachable_invariants_witness:
  "reachable (\<lambda>_. None) (searchForShowAndDisplay_start init_app)
   \<and> pending_wf (searchForShowAndDisplay_start init_app) \<and> cards_wf (searchForShowAndDisplay_start init_app)"
proof -
  have r: "reachable (\<lambda>_. None) (searchForShowAndDisplay_start init_app)"
    by (rule reachable.submit [OF reachable.init])
  from reachable_invariants [OF r] r show ?thesis by simp
qed


subsection \<open>Interleavings\<close>

lemma map_of_fresh:
  "(\<forall>j \<in> fst ` set P. j < (k :: nat)) \<Longrightarrow> map_of (P @ xs) k = map_of xs k"
  by (induction P) (auto simp del: map_of_append)

lemma pending_below: "reachable jp s \<Longrightarrow> \<forall>j \<in> fst ` set (pending s). j < next_req s"
  using pending_wf_reachable_aux by (simp add: pending_wf_def)

lemma resume_search_term [simp]:
  "searchForm_term (searchForShowAndDisplay_resume r d) = searchForm_term d"
  by (simp add: searchForShowAndDisplay_resume_def hide_episodesArea_def split: sum.splits)

lemma settle_newer_then_older:
  assumes "\<forall>j \<in> fst ` set P. j < k" and "pending s = P @ [(k, c1), (Suc k, c2)]"
  shows "page (settle k r1 (settle (Suc k) r2 s)) = resume c1 r1 (resume c2 r2 (page s))
    \<and> sent (settle k r1 (settle (Suc k) r2 s)) = sent s"
proof -
  have "\<forall>j \<in> fst ` set P. j < Suc k" using assms(1) by auto
  from map_of_fresh [OF this] have m1: "map_of (pending s) (Suc k) = Some c2"
    by (simp add: assms(2) del: map_of_append)
  define s2 where "s2 = settle (Suc k) r2 s"
  have e2: "page s2 = resume c2 r2 (page s)" "sent s2 = sent s"
    "pending s2 = filter (\<lambda>(j, _). j \<noteq> Suc k) P @ [(k, c1)]"
    by (simp_all add: s2_def settle_Some [OF m1] assms(2))
  have "\<forall>j \<in> fst ` set (filter (\<lambda>(j, _). j \<noteq> Suc k) P). j < k" using assms(1) by auto
  from map_of_fresh [OF this] have m2: "map_of (pending s2) k = Some c1"
    by (simp add: e2(3) del: map_of_append)
  show ?thesis
    unfolding s2_def [symmetric] by (simp add: settle_Some [OF m2] e2(1,2))
qed

text \<open>C23: responses may settle out of submission order, and the one settled last is
  displayed: from any reachable state, after searching for \<open>t\<close> and then \<open>u\<close>, if the
  second search's response settles first (whatever it is) and the first one's is
  accepted, the page shows the first search's results under the term \<open>u\<close>, and both
  requests were sent in order.\<close>

theorem out_of_order_responses:
  assumes "reachable jp s" and "getShowsByTerm_resume ro = Inr shs"
  shows "showsList (page (app_run jp s [TypeTerm t, SubmitSearch, TypeTerm u, SubmitSearch,
              Settle (Suc (next_req s)) rn, Settle (next_req s) ro])) = map show_markup shs
    \<and> searchForm_term (page (app_run jp s [TypeTerm t, SubmitSearch, TypeTerm u, SubmitSearch,
              Settle (Suc (next_req s)) rn, Settle (next_req s) ro])) = u
    \<and> sent (app_run jp s [TypeTerm t, SubmitSearch, TypeTerm u, SubmitSearch,
              Settle (Suc (next_req s)) rn, Settle (next_req s) ro])
       = sent s @ [(next_req s, search_request t), (Suc (next_req s), search_request u)]"
proof -
  define s1 where "s1 = app_run jp s [TypeTerm t, SubmitSearch, TypeTerm u, SubmitSearch]"
  have p1: "pending s1 = pending s @ [(next_req s, KSearch), (Suc (next_req s), KSearch)]"
    and st1: "sent s1 = sent s @ [(next_req s, search_request t), (Suc (next_req s), search_request u)]"
    and tt: "searchForm_term (page s1) = u"
    by (simp_all add: s1_def searchForShowAndDisplay_start_def issue_def)
  have run: "app_run jp s [TypeTerm t, SubmitSearch, TypeTerm u, SubmitSearch,
      Settle (Suc (next_req s)) rn, Settle (next_req s) ro] = settle (next_req s) ro (settle (Suc (next_req s)) rn s1)"
    by (simp add: s1_def)
  show ?thesis
    unfolding run
    using settle_newer_then_older [OF pending_below [OF assms(1)] p1] assms(2) st1 tt
    by (simp add: resume_def searchForShowAndDisplay_resume_def hide_episodesArea_def split: sum.splits)
qed

theorem out_of_order_responses_witness:
  "reachable (\<lambda>_. None) init_app
   \<and> getShowsByTerm_resume (Inr (search_json [(1, show_a)]))
       = Inr [\<lparr>show_id = JNum 1, show_name = JStr ''A'', show_summary = JNull, show_image = JStr missing_url_image\<rparr>]
   \<and> showsList (page (app_run (\<lambda>_. None) init_app [TypeTerm ''a'', SubmitSearch, TypeTerm ''b'', SubmitSearch,
        Settle (Suc (next_req init_app)) (Inr (search_json [(1, show_b)])),
        Settle (next_req init_app) (Inr (search_json [(1, show_a)]))]))
     = [show_markup \<lparr>show_id = JNum 1, show_name = JStr ''A'', show_summary = JNull, show_image = JStr missing_url_image\<rparr>]
   \<and> searchForm_term (page (app_run (\<lambda>_. None) init_app [TypeTerm ''a'', SubmitSearch, TypeTerm ''b'', SubmitSearch,
        Settle (Suc (next_req init_app)) (Inr (search_json [(1, show_b)])),
        Settle (next_req init_app) (Inr (search_json [(1, show_a)]))])) = ''b''"
proof -
  have r: "getShowsByTerm_resume (Inr (search_json [(1, show_a)]))
       = Inr [\<lparr>show_id = JNum 1, show_name = JStr ''A'', show_summary = JNull, show_image = JStr missing_url_image\<rparr>]"
    by (simp add: eval_simps show_a_def)
  from out_of_order_responses [where t = "''a''" and u = "''b''"
      and rn = "Inr (search_json [(1, show_b)])" and jp = "\<lambda>_. None", OF reachable.init r] r
  show ?thesis by (simp add: reachable.init)
qed

text \<open>C25: episodes requested for a show of an earlier search can be displayed under the
  results of a later search: from any reachable state, clicking a card, then searching
  again, the new search's response settling first and the episode response after it,
  the page shows the new results and, in the visible episode region, the earlier show's
  episodes.\<close>

theorem stale_episodes_beside_new_results:
  assumes "reachable jp s" and "i < length (showsList (page s))"
    and "getShowsByTerm_resume b = Inr shows" and "getEpisodesOfShow_resume e = Inr eps"
  shows "showsList (page (app_run jp s [ClickEpisodes i, SubmitSearch, Settle (Suc (next_req s)) b, Settle (next_req s) e]))
       = map show_markup shows
    \<and> episodesList (page (app_run jp s [ClickEpisodes i, SubmitSearch, Settle (Suc (next_req s)) b, Settle (next_req s) e]))
       = map episode_markup eps
    \<and> episodesArea_visible (page (app_run jp s [ClickEpisodes i, SubmitSearch, Settle (Suc (next_req s)) b, Settle (next_req s) e]))"
proof -
  define s1 where "s1 = app_run jp s [ClickEpisodes i, SubmitSearch]"
  have p1: "pending s1 = pending s @ [(next_req s, KEpisodes), (Suc (next_req s), KSearch)]"
    using assms(2) by (simp add: s1_def getEpisodesAndDisplay_start_def searchForShowAndDisplay_start_def issue_def)
  have "app_run jp s [ClickEpisodes i, SubmitSearch, Settle (Suc (next_req s)) b, Settle (next_req s) e]
      = settle (next_req s) e (settle (Suc (next_req s)) b s1)"
    by (simp add: s1_def)
  with settle_newer_then_older [OF pending_below [OF assms(1)] p1] assms(3,4) show ?thesis
    by (simp add: resume_def searchForShowAndDisplay_resume_def getEpisodesAndDisplay_resume_def)
qed

theorem stale_episodes_beside_new_results_witness:
  "reachable (\<lambda>_. None) (app_run (\<lambda>_. None) init_app [SubmitSearch, Settle 0 (Inr (search_json [(1, show_a)]))])
   \<and> 0 < length (showsList (page (app_run (\<lambda>_. None) init_app [SubmitSearch, Settle 0 (Inr (search_json [(1, show_a)]))])))
   \<and> getShowsByTerm_resume (Inr (search_json [(1, show_b)]))
       = Inr [\<lparr>show_id = JNum 2, show_name = JStr ''B'', show_summary = JNull, show_image = JStr missing_url_image\<rparr>]
   \<and> getEpisodesOfShow_resume (Inr (episodes_json [pilot]))
       = Inr [\<lparr>ep_id = JNum 10, ep_name = JStr ''Pilot'', ep_season = JNum 1, ep_number = JNum 1\<rparr>]
   \<and> episodesList (page (app_run (\<lambda>_. None) (app_run (\<lambda>_. None) init_app [SubmitSearch, Settle 0 (Inr (search_json [(1, show_a)]))])
        [ClickEpisodes 0, SubmitSearch,
         Settle (Suc (next_req (app_run (\<lambda>_. None) init_app [SubmitSearch, Settle 0 (Inr (search_json [(1, show_a)]))])))
           (Inr (search_json [(1, show_b)])),
         Settle (next_req (app_run (\<lambda>_. None) init_app [SubmitSearch, Settle 0 (Inr (search_json [(1, show_a)]))]))
           (Inr (episodes_json [pilot]))]))
     = [''<li>Pilot(season 1, episode 1)</li>'']"
proof -
  let ?s = "app_run (\<lambda>_. None) init_app [SubmitSearch, Settle 0 (Inr (search_json [(1, show_a)]))]"
  have reach: "reachable (\<lambda>_. None) ?s" by (rule reachable_app_run [OF reachable.init])
  have len: "0 < length (showsList (page ?s))" by code_simp
  have b: "getShowsByTerm_resume (Inr (search_json [(1, show_b)]))
       = Inr [\<lparr>show_id = JNum 2, show_name = JStr ''B'', show_summary = JNull, show_image = JStr missing_url_image\<rparr>]"
    by (simp add: eval_simps show_b_def)
  have e: "getEpisodesOfShow_resume (Inr (episodes_json [pilot]))
       = Inr [\<lparr>ep_id = JNum 10, ep_name = JStr ''Pilot'', ep_season = JNum 1, ep_number = JNum 1\<rparr>]"
    by code_simp
  have m: "map episode_markup [\<lparr>ep_id = JNum 10, ep_name = JStr ''Pilot'', ep_season = JNum 1, ep_number = JNum 1\<rparr>]
      = [''<li>Pilot(season 1, episode 1)</li>'']" by code_simp
  from stale_episodes_beside_new_results [OF reach len b e] reach len b e m show ?thesis by simp
qed

text \<open>C26: from any reachable state, a new search whose request fails leaves the page
  exactly as it was, episodes shown included, although the spec has the episode region
  hidden at the start of every new search.\<close>

theorem failed_search_keeps_episodes_visible:
  assumes "reachable jp s" and "getShowsByTerm_resume r = Inl err"
  shows "page (app_run jp s [SubmitSearch, Settle (next_req s) r]) = page s"
proof -
  from map_of_fresh [OF pending_below [OF assms(1)]]
  have "map_of (pending (searchForShowAndDisplay_start s)) (next_req s) = Some KSearch"
    by (simp add: searchForShowAndDisplay_start_def issue_def del: map_of_append)
  with assms(2) show ?thesis
    by (simp add: settle_Some resume_def searchForShowAndDisplay_resume_def searchForShowAndDisplay_start_def)
qed

theorem failed_search_keeps_episodes_visible_witness:
  "reachable (\<lambda>_. None) (app_run (\<lambda>_. None) init_app [SubmitSearch, Settle 0 (Inr (search_json [(1, show_a)])),
      ClickEpisodes 0, Settle 1 (Inr (episodes_json [pilot]))])
   \<and> getShowsByTerm_resume (Inl (AxiosError (Some 500))) = Inl (AxiosError (Some 500))
   \<and> episodesArea_visible (page (app_run (\<lambda>_. None) (app_run (\<lambda>_. None) init_app [SubmitSearch,
        Settle 0 (Inr (search_json [(1, show_a)])), ClickEpisodes 0, Settle 1 (Inr (episodes_json [pilot]))])
        [SubmitSearch, Settle (next_req (app_run (\<lambda>_. None) init_app [SubmitSearch,
          Settle 0 (Inr (search_json [(1, show_a)])), ClickEpisodes 0, Settle 1 (Inr (episodes_json [pilot]))]))
          (Inl (AxiosError (Some 500)))]))"
proof -
  let ?s = "app_run (\<lambda>_. None) init_app [SubmitSearch, Settle 0 (Inr (search_json [(1, show_a)])),
      ClickEpisodes 0, Settle 1 (Inr (episodes_json [pilot]))]"
  have reach: "reachable (\<lambda>_. None) ?s" by (rule reachable_app_run [OF reachable.init])
  have r: "getShowsByTerm_resume (Inl (AxiosError (Some 500))) = Inl (AxiosError (Some 500))"
    by simp
  have v: "episodesArea_visible (page ?s)" by code_simp
  from failed_search_keeps_episodes_visible [OF reach r] reach r v show ?thesis by simp
qed



end
