(* ===== verification/Runs.thy ===== *)
theory Runs
  imports Controllers "HOL-Library.Sublist"
begin

text \<open>
  Whole runs of the event loop of \<open>src/tvmaze.js\<close> (theory \<open>Controllers\<close>): any
  interleaving of user actions and settling requests.
  \<^item> \<open>accepted s e\<close>: what event \<open>e\<close> renders in state \<open>s\<close>: a pending search that
    settles with a body \<open>getShowsByTerm\<close> maps renders its show list, a pending episode
    request that settles with a body \<open>getEpisodesOfShow\<close> maps renders its episode list;
    every other event (typing, submitting, clicking, a rejected or malformed response, a
    request no longer pending) renders nothing. \<open>renders\<close> collects them along a run.
  \<^item> \<open>shown_page d rs t\<close>: the abstract page (spec, section 5: whichever response settles
    last determines what is shown): the last show list rendered, the last episode list
    rendered, the episode region visible iff the last thing rendered was an episode list,
    the last term typed.
  \<^item> \<open>drain\<close>: the network answering the oldest pending request until none is left;
    its termination is proved by the number of pending requests.
  \<^item> \<open>search_shows rsp\<close>: the show list a pending search renders when answered by
    \<open>rsp\<close>, if its mapper accepts the answer.
  \<^item> \<open>sends_request\<close>: the user actions that may send a request.
  \<^item> \<open>awaits_endpoint\<close>, \<open>log_wf\<close>: the request log numbers the requests
    \<open>0, 1, ...\<close> in order, and each suspended handler awaits a request to its own endpoint
    (the search continuation a \<open>/search/shows?q=\<close> request, the episode continuation a
    \<open>/shows/.../episodes\<close> request).
  The lemmas show that every run refines \<open>shown_page\<close>, that a network answering in
  issue order leaves the newest search's results on the page, that the requests sent are
  bounded by the user's actions, that a click answered by the network in issue order
  displays the clicked show's episodes with nothing left pending, and, composing the
  two controllers, that a search answered with well-formed results followed by a click
  on the \<open>i\<close>-th card requests the episodes of the \<open>i\<close>-th result's show.
\<close>

datatype rendered = RShows "show_rec list" | REpisodes "episode_rec list"

definition accepted :: "app \<Rightarrow> event \<Rightarrow> rendered option" where
  "accepted s e =
     (case e of
        Settle k r \<Rightarrow>
          (case map_of (pending s) k of
             None \<Rightarrow> None
           | Some KSearch \<Rightarrow> (case getShowsByTerm_resume r of Inl _ \<Rightarrow> None | Inr sh \<Rightarrow> Some (RShows sh))
           | Some KEpisodes \<Rightarrow>
               (case getEpisodesOfShow_resume r of Inl _ \<Rightarrow> None | Inr eps \<Rightarrow> Some (REpisodes eps)))
      | _ \<Rightarrow> None)"

fun renders :: "json_parser \<Rightarrow> app \<Rightarrow> event list \<Rightarrow> rendered list" where
  "renders jp s [] = []"
| "renders jp s (e # es) = (case accepted s e of None \<Rightarrow> [] | Some x \<Rightarrow> [x]) @ renders jp (app_step jp s e) es"

fun shows_of :: "rendered \<Rightarrow> show_rec list option" where
  "shows_of (RShows sh) = Some sh"
| "shows_of (REpisodes _) = None"

fun episodes_of :: "rendered \<Rightarrow> episode_rec list option" where
  "episodes_of (RShows _) = None"
| "episodes_of (REpisodes eps) = Some eps"

fun typed_term :: "event \<Rightarrow> string option" where
  "typed_term (TypeTerm t) = Some t"
| "typed_term _ = None"

definition shown_page :: "dom \<Rightarrow> rendered list \<Rightarrow> string option \<Rightarrow> dom" where
  "shown_page d rs t =
     \<lparr>showsList = (case last_some shows_of rs of None \<Rightarrow> showsList d | Some sh \<Rightarrow> map show_markup sh),
      episodesList = (case last_some episodes_of rs of None \<Rightarrow> episodesList d | Some eps \<Rightarrow> map episode_markup eps),
      episodesArea_visible =
        (case last_some (\<lambda>x. Some (episodes_of x \<noteq> None)) rs of None \<Rightarrow> episodesArea_visible d | Some v \<Rightarrow> v),
      searchForm_term = (case t of None \<Rightarrow> searchForm_term d | Some t' \<Rightarrow> t')\<rparr>"

fun sends_request :: "event \<Rightarrow> bool" where
  "sends_request SubmitSearch = True"
| "sends_request (ClickEpisodes _) = True"
| "sends_request _ = False"

function drain :: "json_parser \<Rightarrow> (nat \<Rightarrow> js_error + jsval) \<Rightarrow> app \<Rightarrow> app" where
  "drain jp rsp s =
     (case pending s of
        [] \<Rightarrow> s
      | (k, _) # _ \<Rightarrow> drain jp rsp (app_step jp s (Settle k (rsp k))))"
  by pat_completeness auto

termination
  by (relation "measure (\<lambda>(jp, rsp, s). length (pending s))") (auto simp: settle_def le_imp_less_Suc)

declare drain.simps [simp del]

definition search_shows :: "(nat \<Rightarrow> js_error + jsval) \<Rightarrow> nat \<times> continuation \<Rightarrow> show_rec list option" where
  "search_shows rsp p =
     (case p of
        (j, KSearch) \<Rightarrow> (case getShowsByTerm_resume (rsp j) of Inl _ \<Rightarrow> None | Inr sh \<Rightarrow> Some sh)
      | (j, KEpisodes) \<Rightarrow> None)"

definition awaits_endpoint :: "continuation \<Rightarrow> http_request \<Rightarrow> bool" where
  "awaits_endpoint kont req =
     (case (kont, req) of
        (KSearch, HttpGet u ps) \<Rightarrow> u = ''http://api.tvmaze.com/search/shows'' \<and> map fst ps = [''q'']
      | (KEpisodes, HttpGet u ps) \<Rightarrow>
          ps = [] \<and> prefix ''http://api.tvmaze.com/shows/'' u \<and> suffix ''/episodes'' u)"

definition log_wf :: "app \<Rightarrow> bool" where
  "log_wf s \<longleftrightarrow>
     map fst (sent s) = [0..<next_req s]
     \<and> (\<forall>(k, kont) \<in> set (pending s).
          case map_of (sent s) k of None \<Rightarrow> False | Some req \<Rightarrow> awaits_endpoint kont req)"

section \<open>Lemmas\<close>

subsection \<open>One step and composition of the abstract page\<close>

lemma shown_page_Nil [simp]: "shown_page d [] None = d"
  by (simp add: shown_page_def)

lemma shown_page_append:
  "shown_page (shown_page d rs1 t1) rs2 t2 =
     shown_page d (rs1 @ rs2) (case t2 of None \<Rightarrow> t1 | Some t \<Rightarrow> Some t)"
  by (simp add: shown_page_def last_some_append split: option.splits)

subsection \<open>Pending requests along runs of responses\<close>

lemma map_of_None_filter: "map_of xs k = None \<Longrightarrow> filter (\<lambda>(j, _). j \<noteq> k) xs = xs"
  by (induction xs) auto

lemma pending_settle: "pending (settle k r s) = filter (\<lambda>(j, _). j \<noteq> k) (pending s)"
  by (cases "map_of (pending s) k") (simp_all add: settle_Some map_of_None_filter)

lemma pending_settles:
  "pending (app_run jp s (map (\<lambda>k. Settle k (rsp k)) ks)) = filter (\<lambda>(j, _). j \<notin> set ks) (pending s)
   \<and> sent (app_run jp s (map (\<lambda>k. Settle k (rsp k)) ks)) = sent s"
  by (induction ks arbitrary: s) (auto simp: pending_settle intro: filter_cong)

lemma app_run_settle_not_pending:
  "k \<notin> fst ` set (pending s) \<Longrightarrow>
   app_run jp s (map (\<lambda>j. Settle j (rsp j)) (filter (\<lambda>j. j \<noteq> k) ks))
   = app_run jp s (map (\<lambda>j. Settle j (rsp j)) ks)"
proof (induction ks arbitrary: s)
  case Nil
  show ?case by simp
next
  case (Cons j ks)
  have notin': "k \<notin> fst ` set (pending (settle j (rsp j) s))"
    using Cons.prems by (auto simp: pending_settle)
  show ?case
  proof (cases "j = k")
    case True
    with Cons.prems have "settle j (rsp j) s = s" by (simp add: map_of_eq_None_iff)
    with True Cons.IH [OF Cons.prems] show ?thesis by simp
  next
    case False
    with Cons.IH [OF notin'] show ?thesis by simp
  qed
qed

lemma pending_sorted_reachable: "reachable jp s \<Longrightarrow> sorted (map fst (pending s))"
proof (induction rule: reachable.induct)
  case init
  show ?case by (simp add: init_app_def)
next
  case (type_term s t)
  then show ?case by simp
next
  case (submit s)
  with pending_wf_reachable_aux [OF submit.hyps] show ?case
    by (auto simp: searchForShowAndDisplay_start_def pending_wf_def sorted_append less_imp_le)
next
  case (click s i)
  with pending_wf_reachable_aux [OF click.hyps] show ?case
    by (auto simp: getEpisodesAndDisplay_start_def pending_wf_def sorted_append less_imp_le)
next
  case (settled s k response)
  then show ?case by (simp add: pending_settle sorted_filter)
qed

lemma showsList_settle_in_order:
  "pending s = ps \<Longrightarrow> distinct (map fst ps) \<Longrightarrow>
   showsList (page (app_run jp s (map (\<lambda>(j, _). Settle j (rsp j)) ps))) =
     (case last_some (search_shows rsp) ps of None \<Rightarrow> showsList (page s) | Some sh \<Rightarrow> map show_markup sh)"
proof (induction ps arbitrary: s)
  case Nil
  then show ?case by simp
next
  case (Cons p ps)
  obtain j c where p: "p = (j, c)" by (cases p)
  let ?s' = "settle j (rsp j) s"
  have "filter (\<lambda>(i, _). i \<noteq> j) ps = ps"
    using Cons.prems p by (force simp: filter_id_conv)
  then have pend: "pending ?s' = ps" using Cons.prems p by (simp add: pending_settle)
  have shows': "showsList (page ?s') =
     (case search_shows rsp (j, c) of None \<Rightarrow> showsList (page s) | Some sh \<Rightarrow> map show_markup sh)"
    using Cons.prems p
    by (cases c) (auto simp: settle_Some search_shows_def resume_def searchForShowAndDisplay_resume_def
        getEpisodesAndDisplay_resume_def hide_episodesArea_def split: sum.splits)
  from Cons.IH [OF pend] Cons.prems p shows' show ?case
    by (auto split: option.splits)
qed

subsection \<open>The request log\<close>

lemma awaits_endpoint_requests [simp]:
  "awaits_endpoint KSearch (search_request t)"
  "awaits_endpoint KEpisodes (episodes_request v)"
proof -
  show "awaits_endpoint KSearch (search_request t)"
    by (simp add: awaits_endpoint_def search_request_def)
  let ?u = "''http://api.tvmaze.com/shows/'' @ js_to_string v @ ''/episodes''"
  have "prefix ''http://api.tvmaze.com/shows/'' ?u" by (rule prefixI) (rule refl)
  moreover have "suffix ''/episodes'' ?u"
    by (rule suffixI [where zs = "''http://api.tvmaze.com/shows/'' @ js_to_string v"]) simp
  ultimately show "awaits_endpoint KEpisodes (episodes_request v)"
    by (simp add: awaits_endpoint_def episodes_request_def)
qed

lemma log_wf_issue:
  assumes "log_wf s" and "awaits_endpoint kont req"
  shows "log_wf (issue kont req s)"
proof -
  have "fst ` set (sent s) = {0..<next_req s}"
    using assms(1) by (metis log_wf_def set_map set_upt)
  then have fresh: "map_of (sent s) (next_req s) = None"
    by (simp add: map_of_eq_None_iff)
  have old: "\<And>k. map_of (sent s) k \<noteq> None \<Longrightarrow> map_of (sent s @ [(next_req s, req)]) k = map_of (sent s) k"
    by (auto simp: map_add_def split: option.splits)
  show ?thesis
    using assms fresh old
    by (fastforce simp: log_wf_def split: option.splits)
qed

lemma log_wf_settle: "log_wf s \<Longrightarrow> log_wf (settle k r s)"
  by (auto simp: log_wf_def pending_settle)

lemma log_wf_type_term: "log_wf s \<Longrightarrow> log_wf (s\<lparr>page := (page s)\<lparr>searchForm_term := t\<rparr>\<rparr>)"
  by (simp add: log_wf_def)


subsection \<open>Properties of runs\<close>

text \<open>C10: after any run of the event loop, from any state, the page is determined by the
  responses the run renders, in the order they settle (spec, section 5: whichever
  response resolves last determines the final rendered list): the show region holds the
  cards of the last accepted search response, the episode region the lines of the last
  accepted episode response, the region is visible iff the last accepted response was an
  episode list, and the input holds the last term typed. Submission order, clicks, and
  rejected or malformed responses do not matter.\<close>

theorem page_refines_last_responses:
  "page (app_run jp s es) = shown_page (page s) (renders jp s es) (last_some typed_term es)"
proof (induction es arbitrary: s)
  case Nil
  show ?case by simp
next
  case (Cons e es)
  have step: "page (app_step jp s e) =
     shown_page (page s) (case accepted s e of None \<Rightarrow> [] | Some x \<Rightarrow> [x]) (typed_term e)"
  proof (cases e)
    case (Settle k r)
    then show ?thesis
      by (cases "map_of (pending s) k")
         (auto simp: accepted_def settle_Some resume_def searchForShowAndDisplay_resume_def
            getEpisodesAndDisplay_resume_def hide_episodesArea_def shown_page_def
            split: continuation.splits sum.splits)
  qed (simp_all add: accepted_def searchForShowAndDisplay_start_def getEpisodesAndDisplay_start_def
         shown_page_def)
  show ?case
    by (simp add: Cons.IH step shown_page_append split: option.splits)
qed

text \<open>The loop in which the network answers the oldest pending request until none is
  left is the run that settles each pending request once, in the order they were issued.\<close>

lemma drain_run:
  "drain jp rsp s = app_run jp s (map (\<lambda>k. Settle k (rsp k)) (map fst (pending s)))
   \<and> pending (drain jp rsp s) = [] \<and> sent (drain jp rsp s) = sent s"
proof (induction jp rsp s rule: drain.induct)
  case (1 jp rsp s)
  show ?case
  proof (cases "pending s")
    case Nil
    then show ?thesis by (simp add: drain.simps)
  next
    case (Cons p ps)
    obtain k c where p: "p = (k, c)" by (cases p)
    let ?s' = "settle k (rsp k) s"
    have ps': "pending ?s' = filter (\<lambda>(j, _). j \<noteq> k) ps"
      using Cons p by (simp add: settle_def)
    have keys: "map fst (pending ?s') = filter (\<lambda>j. j \<noteq> k) (map fst ps)"
      by (simp add: ps' filter_map comp_def split_def)
    have notin: "k \<notin> fst ` set (pending ?s')" by (auto simp: ps')
    have ih: "drain jp rsp ?s' = app_run jp ?s' (map (\<lambda>k. Settle k (rsp k)) (map fst (pending ?s')))
       \<and> pending (drain jp rsp ?s') = [] \<and> sent (drain jp rsp ?s') = sent ?s'"
      using "1.IH" [OF Cons p [symmetric]] unfolding app_step.simps .
    have "drain jp rsp s = drain jp rsp ?s'" using Cons p by (simp add: drain.simps)
    moreover have "app_run jp s (map (\<lambda>k. Settle k (rsp k)) (map fst (pending s)))
        = app_run jp ?s' (map (\<lambda>k. Settle k (rsp k)) (map fst (pending ?s')))"
      using Cons p app_run_settle_not_pending [OF notin, of jp rsp "map fst ps"] by (simp add: keys)
    ultimately show ?thesis using ih by (metis settle_fields(1))
  qed
qed

text \<open>C21: a run sends at least one request per submission of the search form and at
  most one per submission or click: typing and settling send none, and nothing is ever
  retried.\<close>

theorem requests_bounded_by_actions:
  "length (sent s) + length (filter (\<lambda>e. e = SubmitSearch) es) \<le> length (sent (app_run jp s es))
   \<and> length (sent (app_run jp s es)) \<le> length (sent s) + length (filter sends_request es)"
proof (induction es arbitrary: s)
  case Nil
  show ?case by simp
next
  case (Cons e es)
  have step: "length (sent s) \<le> length (sent (app_step jp s e))
     \<and> length (sent (app_step jp s e)) \<le> length (sent s) + (if sends_request e then 1 else 0)
     \<and> (e = SubmitSearch \<longrightarrow> length (sent (app_step jp s e)) = Suc (length (sent s)))"
    by (cases e) (simp_all add: searchForShowAndDisplay_start_def getEpisodesAndDisplay_start_def)
  from Cons.IH [of "app_step jp s e"] step show ?case
    by (cases "e = SubmitSearch") (auto split: if_splits)
qed

text \<open>C24: if the network answers the pending requests in the order they were issued
  (each once), the show region ends up holding the cards of the response to the newest
  pending search, provided the mapper accepts it: the race of the spec's section 5 needs
  responses that overtake one another (see \<open>out_of_order_responses\<close>).\<close>

theorem fifo_network_shows_last_search:
  assumes "reachable jp s" and "(k, KSearch) \<in> set (pending s)"
    and "\<forall>(j, c) \<in> set (pending s). c = KSearch \<longrightarrow> j \<le> k"
    and "getShowsByTerm_resume (rsp k) = Inr shows"
  shows "showsList (page (app_run jp s (map (\<lambda>(j, _). Settle j (rsp j)) (pending s)))) = map show_markup shows"
proof -
  have dist: "distinct (map fst (pending s))"
    using pending_wf_reachable_aux [OF assms(1)] by (simp add: pending_wf_def)
  have sorted: "sorted (map fst (pending s))" by (rule pending_sorted_reachable [OF assms(1)])
  obtain as bs where split: "pending s = as @ (k, KSearch) # bs"
    using assms(2) by (auto simp: in_set_conv_decomp)
  have later: "\<forall>(j, c) \<in> set bs. k < j"
    using sorted dist by (auto simp: split sorted_append order.order_iff_strict)
  have "\<forall>x \<in> set bs. search_shows rsp x = None"
  proof
    fix x assume x: "x \<in> set bs"
    obtain j c where xjc: "x = (j, c)" by (cases x)
    have "c = KSearch \<longrightarrow> j \<le> k" using assms(3) x xjc by (auto simp: split)
    with later x xjc show "search_shows rsp x = None"
      by (cases c) (auto simp: search_shows_def)
  qed
  then have "last_some (search_shows rsp) (pending s) = Some shows"
    using assms(4) by (simp add: split last_some_append last_some_None_iff [THEN iffD2] search_shows_def)
  with showsList_settle_in_order [OF refl dist, of jp rsp] show ?thesis by simp
qed

theorem fifo_network_shows_last_search_witness:
  "reachable (\<lambda>_. None) (app_run (\<lambda>_. None) init_app [TypeTerm ''a'', SubmitSearch, TypeTerm ''b'', SubmitSearch])
   \<and> (1, KSearch) \<in> set (pending (app_run (\<lambda>_. None) init_app [TypeTerm ''a'', SubmitSearch, TypeTerm ''b'', SubmitSearch]))
   \<and> showsList (page (app_run (\<lambda>_. None) (app_run (\<lambda>_. None) init_app [TypeTerm ''a'', SubmitSearch, TypeTerm ''b'', SubmitSearch])
        [Settle 0 (Inr (search_json [(1, show_a)])), Settle 1 (Inr (search_json [(1, show_b)]))]))
       = [show_markup \<lparr>show_id = JNum 2, show_name = JStr ''B'', show_summary = JNull, show_image = JStr missing_url_image\<rparr>]"
proof -
  let ?s = "app_run (\<lambda>_. None) init_app [TypeTerm ''a'', SubmitSearch, TypeTerm ''b'', SubmitSearch]"
  let ?rsp = "\<lambda>j::nat. if j = 0 then Inr (search_json [(1, show_a)]) else Inr (search_json [(1, show_b)]) :: js_error + jsval"
  have r: "reachable (\<lambda>_. None) ?s" by (rule reachable_app_run [OF reachable.init])
  have p: "pending ?s = [(0, KSearch), (1, KSearch)]"
    by (simp add: searchForShowAndDisplay_start_def init_app_def)
  have k: "(1, KSearch) \<in> set (pending ?s)" using p by simp
  have newest: "\<forall>(j, c) \<in> set (pending ?s). c = KSearch \<longrightarrow> j \<le> 1" using p by auto
  have acc: "getShowsByTerm_resume (?rsp 1)
     = Inr [\<lparr>show_id = JNum 2, show_name = JStr ''B'', show_summary = JNull, show_image = JStr missing_url_image\<rparr>]"
    by (simp add: eval_simps show_b_def)
  from fifo_network_shows_last_search [where rsp = ?rsp, OF r k newest acc] r k p show ?thesis by simp
qed

text \<open>C18: in every reachable state the request log numbers the requests 0, 1, ... in the
  order they were sent, and every suspended handler awaits a request to its own endpoint:
  a suspended search a request to \<open>/search/shows\<close> with the single parameter \<open>q\<close>, a
  suspended episode lookup a request to \<open>/shows/.../episodes\<close> without parameters. So
  a response is always handed to the mapper of the endpoint that produced it.\<close>

theorem reachable_log_typed: "reachable jp s \<Longrightarrow> log_wf s"
proof (induction rule: reachable.induct)
  case init
  show ?case by (simp add: log_wf_def init_app_def)
next
  case (type_term s t)
  from type_term.IH show ?case by (rule log_wf_type_term)
next
  case (submit s)
  then show ?case by (simp add: searchForShowAndDisplay_start_def log_wf_issue)
next
  case (click s i)
  then show ?case by (simp add: getEpisodesAndDisplay_start_def log_wf_issue)
next
  case (settled s k response)
  from settled.IH show ?case by (rule log_wf_settle)
qed

theorem reachable_log_typed_witness:
  "reachable (\<lambda>_. None) (app_run (\<lambda>_. None) init_app [SubmitSearch, Settle 0 (Inr (search_json [(1, show_a)])), ClickEpisodes 0])
   \<and> log_wf (app_run (\<lambda>_. None) init_app [SubmitSearch, Settle 0 (Inr (search_json [(1, show_a)])), ClickEpisodes 0])"
proof -
  have r: "reachable (\<lambda>_. None) (app_run (\<lambda>_. None) init_app [SubmitSearch, Settle 0 (Inr (search_json [(1, show_a)])), ClickEpisodes 0])"
    by (rule reachable_app_run [OF reachable.init])
  from reachable_log_typed [OF r] r show ?thesis by simp
qed

lemma getShowsByTerm_resume_search_json:
  "getShowsByTerm_resume (Inr (search_json rs)) = Inr (map (\<lambda>(score, a). show_of_shape (show_json a)) rs)"
  using getShowsByTerm_resume_ok [of "map (\<lambda>(score, s). JObj [(''score'', JNum score), (''show'', show_json s)]) rs"]
    search_json_ok [of rs]
  by (simp add: search_json_JArr case_prod_beta)

lemma show_id_show_json [simp]: "show_id (show_of_shape (show_json a)) = JNum (a_id a)"
  by (simp add: show_of_shape_def show_json_def)

lemma closest_show_data_JNum:
  "show_id sh = JNum n \<Longrightarrow> plain_card sh \<Longrightarrow> closest_show_data jp (show_markup sh) = JNum n"
  by (simp add: closest_show_data_show_markup)






end
