(* ===== verification/Spec2Isabelle.thy ===== *)
theory Spec2Isabelle
  imports Runs
begin

text \<open>
  \<^bold>\<open>A verified model of the TV-show search widget (src/tvmaze.js).\<close>

  \<^emph>\<open>The program.\<close> One browser script, \<open>src/tvmaze.js\<close>, with six parts: two mappers
  (\<open>getShowsByTerm\<close>, lines 18--31; \<open>getEpisodesOfShow\<close>, lines 85--96) that issue one
  \<open>axios.get\<close> to the TVMaze API and map \<open>response.data\<close> to display records; two
  renderers (\<open>populateShows\<close>, lines 36--60; \<open>populateEpisodes\<close>, lines 100--109) that
  rebuild \<open>#showsList\<close> and \<open>#episodesList\<close> from template literals; and two
  controllers (\<open>searchForShowAndDisplay\<close> with the submit handler, lines 67--78;
  \<open>getEpisodesAndDisplay\<close> with the delegated click handler, lines 111--118) that tie a
  user action to a request and a render. The only state outliving a handler is the
  page: the cards carry each show's id in \<open>data-show-id\<close>, which the click handler
  reads back with \<open>$(evt.target).closest(".Show").data("show-id")\<close> from the clicked
  Episodes button, through the tree the browser built from the card's markup.

  \<^emph>\<open>The library.\<close>
  \<^item> \<open>Prelude\<close>: sequencing of throwing computations (\<open>sbind\<close>, sum type with the error
    on the left), \<open>Array.prototype.map\<close> with a throwing callback (\<open>smap\<close>: elements in
    order, the first throw aborts), \<open>join_with\<close>, and JavaScript's decimal notation of
    integers (\<open>dec_int\<close>) with its parser and the round trip between them.
  \<^item> \<open>JsValue\<close>: the JSON values axios hands to the code (\<open>jsval\<close>; numbers are
    integers, as every number the code reads is), property reads that throw a
    \<open>TypeError\<close> on \<open>null\<close>/\<open>undefined\<close> (\<open>get_prop\<close>), truthiness, the \<open>ToString\<close>
    of template literals (\<open>js_to_string\<close>), \<open>.map\<close> on a non-array, and jQuery's
    \<open>.data\<close> conversion of an attribute string (\<open>jq_data_conv\<close>; \<open>JSON.parse\<close> is a
    parameter \<open>jp\<close>, so every theorem holds for any parser).
  \<^item> \<open>Mappers\<close>: each mapper split at its \<open>await\<close> into the request it issues
    (\<open>search_request\<close>, \<open>episodes_request\<close>) and the code after it
    (\<open>getShowsByTerm_resume\<close>, \<open>getEpisodesOfShow_resume\<close>), the callbacks
    \<open>show_of_info\<close>/\<open>episode_of_info\<close> with every property read in source order. A typed
    description of the documented payloads (\<open>api_show\<close>, \<open>api_episode\<close>, encoded by
    \<open>search_json\<close>/\<open>episodes_json\<close>) and the specification's show record
    (\<open>spec_show\<close>, \<open>spec_show_of\<close>) state the refinement theorems.
  \<^item> \<open>Html\<close>: the browser's tokenizer for the attributes of a tag (\<open>attrs_scan\<close>:
    quoted and unquoted values, case folding of names, the input after the tag;
    terminating by a length measure), whether a tag closes within its input
    (\<open>scan_closed\<close>, with \<open>attrs_scan_append\<close>), the class-list split, and \<open>attr_safe\<close>.
  \<^item> \<open>Tree_Builder\<close>: the start and end tags of a fragment (\<open>tag_tokens\<close>, compositional
    over fragments that end outside a tag: \<open>tag_tokens_append\<close>), the stack of open
    elements under the generic rules of the tree builder (\<open>tree_step\<close>), the path from an
    element to the fragment's root (\<open>element_path\<close>), and balanced markup, which leaves
    the stack as it found it.
  \<^item> \<open>Render\<close>: the page (\<open>dom\<close>: both lists, the visibility of \<open>#episodesArea\<close>, the
    search input's value), the two templates character for character, the append
    loops, the start tags of a fragment (\<open>start_tags\<close>), and what is read back from a
    card: the id a click on its Episodes button reads (\<open>closest_show_data\<close>, the first
    element of class \<open>Show\<close> on the button's path), its image's attributes, its
    heading's text. \<open>plain_card\<close> names the cards whose data keep the template's
    structure: no double quote in the image URL and the name, balanced markup (plain
    text or markup such as TVMaze's HTML summaries) in the name and the summary.
  \<^item> \<open>Controllers\<close>: the event loop. \<open>app\<close> holds the page, the pending requests with
    the continuation waiting on each, the log of requests sent and the next request
    number. Events are the user typing, submitting, clicking the \<open>i\<close>-th card's Episodes
    button, and request \<open>k\<close> settling with a rejection or a body; each controller is a
    \<open>_start\<close> step (up to the request) and a \<open>_resume\<close> step (after it), so any
    interleaving of user actions and responses is a run. \<open>app_step\<close>/\<open>app_run\<close> are
    executable; \<open>reachable\<close> is the inductive set of states, one rule per handler.
  \<^item> \<open>Runs\<close>: whole runs. \<open>renders\<close> lists the responses a run renders (a pending
    request settling with a body its mapper accepts), \<open>shown_page\<close> is the abstract page
    of the spec's section 5 (the last show list and episode list rendered, the episode
    region visible iff the last rendering was of episodes); \<open>drain\<close> is the network
    answering the oldest pending request until none is left (a \<open>function\<close> terminating by
    the number of pending requests); \<open>log_wf\<close> types the request log.
  \<^item> This theory: the spec's two end-to-end scenarios (section 8), for every reachable
    state and every payload.

  \<^emph>\<open>What is proved.\<close> Mappers: refinement of the typed payload to the spec's records
  (image: medium URL or placeholder), order, cardinality and field preservation, and the
  exact error behaviour (rejections propagate; a \<open>TypeError\<close> exactly on bodies that are
  not arrays of results with a non-null show). Renderers: one card per show in order,
  tagged with its id; emptiness and idempotence; the id round trip through a click on
  the card's button (exact for numeric ids, and up to jQuery's type conversion, text
  preserved, for attribute-safe ids that do not look like JSON), on every
  \<open>plain_card\<close>; the card's image carries the image URL (the placeholder when there is
  none) and the name as alternative text; its heading displays the name up to its first
  \<open><\<close>; the text of an episode line reads back to its season and number whenever the name
  holds no \<open><\<close>. Controllers: the bookkeeping and card invariants of every reachable
  state (rule induction); the episode region becomes visible only through an episode
  response; the click handler requests the clicked card's show; a failed search or
  episode request leaves the page as it was; from any reachable state, responses that
  overtake one another leave an earlier term's results under a later term, and late
  episodes beside a later search's results. Runs: the page after any run, from any
  state, is \<open>shown_page\<close> of the responses the run renders; a network answering in issue
  order leaves the newest search's results displayed, and, after a click, the clicked
  show's episodes, with nothing pending; every reachable state's log numbers requests in
  order and each suspended handler awaits its own endpoint; a run sends at least one
  request per submission and at most one per submission or click; a search answered with
  well-formed results and then a click on card \<open>i\<close> requests the episodes of the
  \<open>i\<close>-th result's show. This theory: a search from any reachable state renders one card
  per result in order and hides the episode region; a click on a card of show \<open>n\<close>
  requests \<open>/shows/n/episodes\<close> and displays one line \<open>name(season s, episode k)\<close> per
  episode.

  \<^emph>\<open>Findings.\<close> The code hides \<open>#episodesArea\<close> after the search response, not at
  submission as the spec's ordering guarantee says, and not at all when the search fails;
  responses settle and render in any order (the last settled wins), so stale episodes
  can show beside new results; a show name with a double quote injects attributes into
  the card's image, and a name that is markup adds elements to the card: one that closes
  the card's elements and opens another \<open>.Show\<close> element redirects the Episodes click to
  another show's id; a \<open>null\<close> summary is displayed as the word \<open>null\<close>; an image object
  without a \<open>medium\<close> field gives an image URL \<open>undefined\<close>.

  \<^emph>\<open>Not modelled.\<close> The network and the TVMaze service (a settled request is an input
  of the model); jQuery and the browser beyond what the code relies on: each card is
  kept as its markup, and the tree is read from it by the generic rules of the tree
  builder (the special rules for \<open>p\<close>, \<open>li\<close>, headings, formatting elements, tables and
  foreign content, raw-text elements and comments are left out; on balanced markup of
  ordinary elements they leave the same stack); the tokenizer leaves out the
  preprocessing of CR and NUL and character references (the statements about values read
  back assume text without double quotes, or \<open>attr_safe\<close> text, where none of these
  apply); a click is on the template's Episodes button only. \<open>js_to_string\<close> gives
  \<open>[object Object]\<close> for every object, where a template literal throws a \<open>TypeError\<close> for
  an object whose own \<open>toString\<close> is not a function. Numbers are integers (JavaScript
  prints integers of 10^21 and beyond in exponent form, far above any id).
  \<open>index.html\<close> is not under \<open>src/\<close>: its initial page (\<open>init_dom\<close>: empty lists,
  episode region hidden) is taken from the spec. \<open>JSON.parse\<close> stays a parameter of
  \<open>.data\<close>: the ids the code writes are numbers, whose text never looks like JSON, so no
  theorem about this code depends on the parser. No loop needs fuel: every recursion is
  structural or terminates by the length of the string it consumes, and \<open>drain\<close> by the
  number of pending requests.

  \<^emph>\<open>Possible extensions.\<close> Character references in attribute values and text; the
  special rules of the tree builder, so that read-back holds for unbalanced data; the
  markup of \<open>index.html\<close>, were it added to the repository.
\<close>

definition batman :: api_show where
  "batman = \<lparr>a_id = 975, a_name = ''Batman'', a_summary = Some ''<p>Wham! Pow!</p>'',
     a_image = Some \<lparr>img_medium = ''https://static.tvmaze.com/m/975.jpg'',
                     img_original = ''https://static.tvmaze.com/o/975.jpg''\<rparr>\<rparr>"

definition batman_beyond :: api_show where
  "batman_beyond = \<lparr>a_id = 139, a_name = ''Batman Beyond'', a_summary = None, a_image = None\<rparr>"

subsection \<open>The spec's scenarios (section 8), for every state and payload\<close>

lemma getEpisodesOfShow_resume_episodes_json:
  "getEpisodesOfShow_resume (Inr (episodes_json es)) = Inr (map (\<lambda>e. episode_of_shape (episode_json e)) es)"
  using getEpisodesOfShow_resume_ok [of "map episode_json es"] episodes_json_ok [of es]
  by (simp add: episodes_json_def comp_def)

lemma episode_markup_json:
  "episode_markup (episode_of_shape (episode_json e))
     = ''<li>'' @ e_name e @ ''(season '' @ dec_int (e_season e) @ '', episode '' @ dec_int (e_number e) @ '')</li>''"
  by (simp add: episode_markup_def episode_of_shape_def episode_json_def)

lemma map_of_issue_fresh:
  assumes "reachable jp s" shows "map_of (pending s @ [(next_req s, c)]) (next_req s) = Some c"
  using map_of_fresh [OF pending_below [OF assms], of "[(next_req s, c)]"] by (simp del: map_of_append)

lemma filter_issue_fresh:
  assumes "reachable jp s" shows "filter (\<lambda>(j, _). j \<noteq> next_req s) (pending s @ [(next_req s, c)]) = pending s"
  using pending_below [OF assms] by (force intro: filter_True)

text \<open>C19: a search from any reachable state: typing a term, submitting and the
  response settling with the API's results \<open>rs\<close> sends exactly one request, the search
  for that term, renders one card per result in the API's order (the records of
  \<open>getShowsByTerm\<close>), hides the episode region and leaves nothing more pending (the
  spec's first scenario, \<open>batman\<close>, is an instance).\<close>

theorem search_scenario:
  assumes "reachable jp s"
  shows "sent (app_run jp s [TypeTerm t, SubmitSearch, Settle (next_req s) (Inr (search_json rs))])
       = sent s @ [(next_req s, search_request t)]
    \<and> showsList (page (app_run jp s [TypeTerm t, SubmitSearch, Settle (next_req s) (Inr (search_json rs))]))
       = map (\<lambda>(score, a). show_markup (show_of_shape (show_json a))) rs
    \<and> \<not> episodesArea_visible (page (app_run jp s [TypeTerm t, SubmitSearch, Settle (next_req s) (Inr (search_json rs))]))
    \<and> pending (app_run jp s [TypeTerm t, SubmitSearch, Settle (next_req s) (Inr (search_json rs))]) = pending s"
proof -
  have r: "reachable jp (s\<lparr>page := (page s)\<lparr>searchForm_term := t\<rparr>\<rparr>)"
    using reachable.type_term [OF assms] by simp
  note m = map_of_issue_fresh [OF r, of KSearch] and f = filter_issue_fresh [OF r, of KSearch]
  show ?thesis
    using m f by (simp add: searchForShowAndDisplay_start_def issue_def settle_def resume_def
        searchForShowAndDisplay_resume_def getShowsByTerm_resume_search_json hide_episodesArea_def
        case_prod_beta comp_def del: map_of_append)
qed

theorem search_scenario_witness:
  "reachable (\<lambda>_. None) init_app
   \<and> sent (app_run (\<lambda>_. None) init_app [TypeTerm ''batman'', SubmitSearch,
        Settle (next_req init_app) (Inr (search_json [(20, batman), (18, batman_beyond)]))])
     = [(0, search_request ''batman'')]
   \<and> showsList (page (app_run (\<lambda>_. None) init_app [TypeTerm ''batman'', SubmitSearch,
        Settle (next_req init_app) (Inr (search_json [(20, batman), (18, batman_beyond)]))]))
     = [show_markup \<lparr>show_id = JNum 975, show_name = JStr ''Batman'', show_summary = JStr ''<p>Wham! Pow!</p>'',
                     show_image = JStr ''https://static.tvmaze.com/m/975.jpg''\<rparr>,
        show_markup \<lparr>show_id = JNum 139, show_name = JStr ''Batman Beyond'', show_summary = JNull,
                     show_image = JStr missing_url_image\<rparr>]"
proof -
  have m: "map (\<lambda>(score, a). show_markup (show_of_shape (show_json a))) [(20::int, batman), (18, batman_beyond)]
     = [show_markup \<lparr>show_id = JNum 975, show_name = JStr ''Batman'', show_summary = JStr ''<p>Wham! Pow!</p>'',
                     show_image = JStr ''https://static.tvmaze.com/m/975.jpg''\<rparr>,
        show_markup \<lparr>show_id = JNum 139, show_name = JStr ''Batman Beyond'', show_summary = JNull,
                     show_image = JStr missing_url_image\<rparr>]"
    by (simp add: batman_def batman_beyond_def show_of_shape_def show_json_def str_or_null_def image_json_def
        prop_or_undef_def)
  have n: "next_req init_app = 0" "sent init_app = []" by (simp_all add: init_app_def)
  from search_scenario [where t = "''batman''" and rs = "[(20, batman), (18, batman_beyond)]" and jp = "\<lambda>_. None",
      OF reachable.init] m n
  show ?thesis by (simp add: reachable.init)
qed


end
